theory Spec2Isabelle
  imports Complex_Main "HOL-Library.Sublist"
begin

section \<open>Strings\<close>

text \<open>
  Python strings are modelled as \<open>string\<close>. The two string tests the sources use are
  \<open>pattern in url\<close> (contiguous, case-sensitive substring) and \<open>url.startswith(p)\<close>;
  they are \<open>sublist\<close> and \<open>prefix\<close> of HOL-Library.Sublist, both executable.
  \<open>any(pattern in url for pattern in ps)\<close> is \<open>any_in ps url\<close>.
\<close>

definition any_in :: "string list \<Rightarrow> string \<Rightarrow> bool" where
  "any_in patterns url = list_ex (\<lambda>pattern. sublist pattern url) patterns"

section \<open>extractor.py: the validity predicate\<close>

definition valid_video_patterns :: "string list" where
  "valid_video_patterns =
     [''.mp4'', ''.m3u8'', ''.mpd'', ''/media/'', ''/video/'', ''stream'', ''download'']"

text \<open>\<open>_is_valid_download_url\<close>, with its three early returns in the source's order.\<close>

definition is_valid_download_url :: "string \<Rightarrow> bool" where
  "is_valid_download_url url =
     (if url = [] then False
      else if \<not> (prefix ''http://'' url \<or> prefix ''https://'' url) then False
      else if \<not> any_in valid_video_patterns url then False
      else True)"

section \<open>utils.py: deduplication\<close>

text \<open>
  \<open>deduplicate_links\<close>: the loop variables \<open>seen\<close> and \<open>result\<close> are threaded through
  the recursion; \<open>if link and link not in seen\<close> tests the link's truthiness first, and
  an empty string is falsy.
\<close>

fun deduplicate_loop :: "string list \<Rightarrow> string set \<Rightarrow> string list \<Rightarrow> string list" where
  "deduplicate_loop [] seen result = result"
| "deduplicate_loop (link # links) seen result =
     (if link \<noteq> [] \<and> link \<notin> seen
      then deduplicate_loop links (insert link seen) (result @ [link])
      else deduplicate_loop links seen result)"

definition deduplicate_links :: "string list \<Rightarrow> string list" where
  "deduplicate_links links = deduplicate_loop links {} []"

text \<open>
  The specification's wording, for comparison: the sublist of first occurrences in
  original order, that is, the entries whose value does not occur at an earlier index.
\<close>

definition first_occurrences :: "'a list \<Rightarrow> 'a list" where
  "first_occurrences xs =
     map (\<lambda>i. xs ! i) (filter (\<lambda>i. xs ! i \<notin> set (take i xs)) [0..<length xs])"

text \<open>What the loop computes: first occurrences among the non-empty entries.\<close>

definition first_nonempty_occurrences :: "string list \<Rightarrow> string list" where
  "first_nonempty_occurrences xs =
     map (\<lambda>i. xs ! i)
       (filter (\<lambda>i. xs ! i \<noteq> [] \<and> xs ! i \<notin> set (take i xs)) [0..<length xs])"

section \<open>The captured-response dictionary\<close>

text \<open>
  \<open>xhr_responses\<close> is a Python dict from URL to URL. Iteration follows insertion
  order and an assignment to an existing key keeps the key's position, so the dict is
  an association list with \<open>dict_set\<close> for \<open>d[k] = v\<close>.
\<close>

type_synonym xhr_dict = "(string \<times> string) list"

fun dict_set :: "('k \<times> 'v) list \<Rightarrow> 'k \<Rightarrow> 'v \<Rightarrow> ('k \<times> 'v) list" where
  "dict_set [] k v = [(k, v)]"
| "dict_set ((k', v') # d) k v =
     (if k' = k then (k, v) # d else (k', v') # dict_set d k v)"

definition dict_values :: "('k \<times> 'v) list \<Rightarrow> 'v list" where
  "dict_values d = map snd d"

subsection \<open>browser_client.py: the response listener\<close>

definition capture_patterns :: "string list" where
  "capture_patterns =
     [''m3u8'', ''mpd'', ''video'', ''media'', ''stream'', ''mp4'', ''download'']"

definition capture_resource_types :: "string list" where
  "capture_resource_types = [''fetch'', ''xhr'', ''media'']"

text \<open>
  \<open>_handle_response\<close>: \<open>resource_type\<close> is \<open>response.request.resource_type\<close> and
  \<open>url\<close> is \<open>response.url\<close>; the dict is \<open>self.xhr_responses\<close>, returned updated.
\<close>

definition handle_response :: "string \<Rightarrow> string \<Rightarrow> xhr_dict \<Rightarrow> xhr_dict" where
  "handle_response resource_type url xhr_responses =
     (if resource_type \<in> set capture_resource_types
      then (if any_in capture_patterns url
            then dict_set xhr_responses url url
            else xhr_responses)
      else xhr_responses)"

subsection \<open>extractor.py: captured-response analysis\<close>

definition xhr_video_patterns :: "string list" where
  "xhr_video_patterns =
     [''.mp4'', ''.m3u8'', ''.mpd'', ''/media/'', ''/video/'', ''stream'']"

fun analyze_values :: "string list \<Rightarrow> string option" where
  "analyze_values [] = None"
| "analyze_values (url # urls) =
     (if any_in xhr_video_patterns url
      then (if is_valid_download_url url then Some url else analyze_values urls)
      else analyze_values urls)"

definition analyze_xhr_responses :: "xhr_dict \<Rightarrow> string option" where
  "analyze_xhr_responses xhr_responses = analyze_values (dict_values xhr_responses)"

section \<open>browser_client.py: the rate limiter\<close>

text \<open>Python exceptions that the modelled code can raise.\<close>

datatype py_exception =
  ValueError | TypeError | AttributeError | FileNotFoundError | PlaywrightError

text \<open>
  \<open>RateLimiter\<close>. Timestamps are the values of \<open>time.time()\<close>, taken as real numbers;
  the delay and the cap are Python ints.
\<close>

record rate_limiter =
  delay_between_requests :: int
  max_requests_per_minute :: int
  request_times :: "real list"

definition RateLimiter :: "int \<Rightarrow> int \<Rightarrow> rate_limiter" where
  "RateLimiter delay max_per_minute =
     \<lparr>delay_between_requests = delay, max_requests_per_minute = max_per_minute,
      request_times = []\<rparr>"

text \<open>Python's \<open>min\<close> and \<open>max\<close> of a list raise ValueError on the empty list.\<close>

definition py_min :: "real list \<Rightarrow> py_exception + real" where
  "py_min xs = (case xs of [] \<Rightarrow> Inl ValueError | x # rest \<Rightarrow> Inr (fold min rest x))"

definition py_max :: "real list \<Rightarrow> py_exception + real" where
  "py_max xs = (case xs of [] \<Rightarrow> Inl ValueError | x # rest \<Rightarrow> Inr (fold max rest x))"

text \<open>
  \<open>wait_for_request\<close>, the body of the critical section. The lock makes concurrent
  callers run the body one after the other, so a call is a function of the limiter and
  of what the clock does during the call:
  \<^item> \<open>current_time\<close> is the value of the first \<open>time.time()\<close> (line 33);
  \<^item> \<open>asyncio.sleep(s)\<close> lets at least \<open>s\<close> seconds pass; \<open>slept1\<close> and \<open>slept2\<close>
    are the two requested sleeps (zero when the branch is not taken);
  \<^item> \<open>lag\<close> is the time that passes between the two clock readings beyond the
    requested sleeps, so that the second \<open>time.time()\<close> (line 53) reads
    \<open>current_time + slept1 + slept2 + lag\<close>.
  \<open>min\<close> is evaluated only when the cap test succeeds, and \<open>max\<close> only on a non-empty
  list (\<open>if self.request_times:\<close>), as in the source; the delay test uses the first
  clock reading also after the first sleep. When \<open>min\<close> raises, the list has been
  pruned to the empty list already.
\<close>

definition wait_for_request :: "rate_limiter \<Rightarrow> real \<Rightarrow> real \<Rightarrow> py_exception + rate_limiter" where
  "wait_for_request self current_time lag =
     (let one_minute_ago = current_time - 60;
          times = filter (\<lambda>t. t > one_minute_ago) (request_times self)
      in case (if max_requests_per_minute self \<le> int (length times)
               then (case py_min times of
                       Inl e \<Rightarrow> Inl e
                     | Inr oldest_time \<Rightarrow> Inr (max (60 - (current_time - oldest_time)) 0))
               else Inr 0) of
           Inl e \<Rightarrow> Inl e
         | Inr slept1 \<Rightarrow>
             (case (if times \<noteq> []
                    then (case py_max times of
                            Inl e \<Rightarrow> Inl e
                          | Inr latest_time \<Rightarrow>
                              (let elapsed = current_time - latest_time
                               in if elapsed < real_of_int (delay_between_requests self)
                                  then Inr (real_of_int (delay_between_requests self) - elapsed)
                                  else Inr 0))
                    else Inr 0) of
                Inl e \<Rightarrow> Inl e
              | Inr slept2 \<Rightarrow>
                  Inr (self\<lparr>request_times :=
                         times @ [current_time + slept1 + slept2 + lag]\<rparr>)))"

text \<open>
  A sequence of calls on one limiter. Each step \<open>(gap, lag)\<close> is one call: it enters
  the critical section \<open>gap\<close> seconds after the previous call recorded its timestamp
  (after \<open>clock\<close> for the first call) and runs with the given \<open>lag\<close>. The result is the
  limiter after the last call and the timestamps recorded by the calls, in order; an
  exception ends the sequence.
\<close>

fun acquire_all ::
  "rate_limiter \<Rightarrow> real \<Rightarrow> (real \<times> real) list \<Rightarrow> py_exception + (rate_limiter \<times> real list)" where
  "acquire_all self clock [] = Inr (self, [])"
| "acquire_all self clock ((gap, lag) # steps) =
     (case wait_for_request self (clock + gap) lag of
        Inl e \<Rightarrow> Inl e
      | Inr self' \<Rightarrow>
          (let finished = last (request_times self')
           in case acquire_all self' finished steps of
                Inl e \<Rightarrow> Inl e
              | Inr (self'', completions) \<Rightarrow> Inr (self'', finished # completions)))"

text \<open>The number of timestamps held by the limiter in the window \<open>(now - 60, now]\<close>.\<close>

definition window_count :: "rate_limiter \<Rightarrow> real \<Rightarrow> nat" where
  "window_count self now = length (filter (\<lambda>t. t > now - 60) (request_times self))"

text \<open>
  The invariant of the limiter after the calls that recorded \<open>past\<close>, at time \<open>clock\<close>:
  nothing is recorded in the future, the limiter still holds every timestamp of the
  last 60 seconds, and no window \<open>(now - 60, now]\<close> holds more than \<open>M\<close> timestamps.
\<close>

definition limiter_inv :: "int \<Rightarrow> real list \<Rightarrow> rate_limiter \<Rightarrow> real \<Rightarrow> bool" where
  "limiter_inv M past self clock \<longleftrightarrow>
     max_requests_per_minute self = M
     \<and> (\<forall>t \<in> set past. t \<le> clock)
     \<and> filter (\<lambda>t. clock - 60 < t) (request_times self) = filter (\<lambda>t. clock - 60 < t) past
     \<and> (\<forall>now. int (length (filter (\<lambda>t. now - 60 < t \<and> t \<le> now) past)) \<le> M)"

section \<open>config.py: loading the configuration\<close>

text \<open>
  The values that \<open>yaml.safe_load\<close> returns: scalars, sequences and mappings (a mapping
  keeps the order of the document; its keys are YAML values as well).
\<close>

datatype yaml =
  YNull | YBool bool | YInt int | YFloat real | YStr string
  | YSeq "yaml list" | YMap "(yaml \<times> yaml) list"

text \<open>Python truthiness of a loaded value, as tested by \<open>if config_data:\<close>.\<close>

fun truthy :: "yaml \<Rightarrow> bool" where
  "truthy YNull = False"
| "truthy (YBool b) = b"
| "truthy (YInt i) = (i \<noteq> 0)"
| "truthy (YFloat x) = (x \<noteq> 0)"
| "truthy (YStr s) = (s \<noteq> [])"
| "truthy (YSeq xs) = (xs \<noteq> [])"
| "truthy (YMap kvs) = (kvs \<noteq> [])"

text \<open>
  A \<open>Config\<close> object is its instance attribute dictionary: \<open>setattr\<close> stores any value
  under a field, whatever the field's declared type. \<open>Config ()\<close> is the object with the
  dataclass defaults, \<open>xhr_patterns\<close> as set by \<open>__post_init__\<close>.
\<close>

type_synonym config = "string \<rightharpoonup> yaml"

definition config_fields :: "string list" where
  "config_fields =
     [''delay_between_requests'', ''max_requests_per_minute'', ''timeout'', ''output_dir'',
      ''idm_path'', ''download_dir'', ''download_link_selector'', ''xhr_patterns'']"

definition Config :: "unit \<Rightarrow> config" where
  "Config u = map_of
     [(''delay_between_requests'', YInt 5),
      (''max_requests_per_minute'', YInt 10),
      (''timeout'', YInt 15),
      (''output_dir'', YStr ''./out''),
      (''idm_path'', YStr ''C:/Program Files (x86)/Internet Download Manager/IDMan.exe''),
      (''download_dir'', YStr ''C:/Downloads''),
      (''download_link_selector'',
         YStr ''a.download-button, a[data-download], a.video-download, a[href*='download']''),
      (''xhr_patterns'',
         YSeq [YStr ''*.m3u8*'', YStr ''*.mpd*'', YStr ''*video*'', YStr ''*media*'',
               YStr ''*stream*''])]"

text \<open>
  Besides its own fields, an instance has the attributes of its class: the field
  defaults, which a dataclass keeps as class attributes, and the double-underscore
  names that every object inherits or that \<open>@dataclass\<close> adds. Which names the latter
  are is a matter of the Python runtime, so they are a parameter of the model: a class
  maps such a name to what \<open>setattr(config, name, value)\<close> does with a loaded value,
  \<^item> \<open>Stores\<close>: the value is stored in the instance dictionary (\<open>__doc__\<close>, \<open>__eq__\<close>, ...);
  \<^item> \<open>Refuses e\<close>: the assignment raises \<open>e\<close> (\<open>__class__\<close> accepts only a class,
    \<open>__weakref__\<close> is not writable);
  \<^item> \<open>ReplacesDict\<close>: the name is \<open>__dict__\<close>; a mapping becomes the instance
    dictionary, any other value raises TypeError;
  and maps every other name to \<open>None\<close>.
\<close>

datatype assignment = Stores | Refuses py_exception | ReplacesDict

type_synonym py_class = "string \<rightharpoonup> assignment"

text \<open>The inherited names of a \<open>Config\<close> instance under CPython 3.11.\<close>

definition Config_class :: py_class where
  "Config_class = map_of
     [(''__annotations__'', Stores), (''__class__'', Refuses TypeError),
      (''__dataclass_fields__'', Stores), (''__dataclass_params__'', Stores),
      (''__delattr__'', Stores), (''__dict__'', ReplacesDict), (''__dir__'', Stores),
      (''__doc__'', Stores), (''__eq__'', Stores), (''__format__'', Stores),
      (''__ge__'', Stores), (''__getattribute__'', Stores), (''__getstate__'', Stores),
      (''__gt__'', Stores), (''__hash__'', Stores), (''__init__'', Stores),
      (''__init_subclass__'', Stores), (''__le__'', Stores), (''__lt__'', Stores),
      (''__match_args__'', Stores), (''__module__'', Stores), (''__ne__'', Stores),
      (''__new__'', Stores), (''__post_init__'', Stores), (''__reduce__'', Stores),
      (''__reduce_ex__'', Stores), (''__repr__'', Stores), (''__setattr__'', Stores),
      (''__sizeof__'', Stores), (''__str__'', Stores), (''__subclasshook__'', Stores),
      (''__weakref__'', Refuses AttributeError)]"

text \<open>
  \<open>hasattr(config, name)\<close> for a string \<open>name\<close>: the name is in the instance
  dictionary, or it is a field (found on the class through its default), or the class
  has it.
\<close>

definition hasattr :: "py_class \<Rightarrow> config \<Rightarrow> string \<Rightarrow> bool" where
  "hasattr cls obj name = (obj name \<noteq> None \<or> name \<in> set config_fields \<or> cls name \<noteq> None)"

text \<open>
  The instance dictionary made of a loaded mapping. Attribute access uses string keys
  only, so the entries under other keys are dropped; a later entry replaces an earlier
  one with the same key.
\<close>

fun attributes_of :: "(yaml \<times> yaml) list \<Rightarrow> config \<Rightarrow> config" where
  "attributes_of [] obj = obj"
| "attributes_of ((key, v) # items) obj =
     (case key of
        YStr name \<Rightarrow> attributes_of items (obj(name \<mapsto> v))
      | _ \<Rightarrow> attributes_of items obj)"

definition setattr :: "py_class \<Rightarrow> config \<Rightarrow> string \<Rightarrow> yaml \<Rightarrow> py_exception + config" where
  "setattr cls obj name v =
     (case cls name of
        Some (Refuses e) \<Rightarrow> Inl e
      | Some ReplacesDict \<Rightarrow>
          (case v of
             YMap items \<Rightarrow> Inr (attributes_of items Map.empty)
           | _ \<Rightarrow> Inl TypeError)
      | _ \<Rightarrow> Inr (obj(name \<mapsto> v)))"

text \<open>
  The loop over \<open>config_data.items()\<close>. \<open>hasattr\<close> raises TypeError when the key is
  not a string; an exception of \<open>setattr\<close> ends the loop.
\<close>

fun update_config :: "py_class \<Rightarrow> (yaml \<times> yaml) list \<Rightarrow> config \<Rightarrow> py_exception + config" where
  "update_config cls [] config = Inr config"
| "update_config cls ((key, v) # items) config =
     (case key of
        YStr name \<Rightarrow>
          (if hasattr cls config name
           then (case setattr cls config name v of
                   Inl e \<Rightarrow> Inl e
                 | Inr config' \<Rightarrow> update_config cls items config')
           else update_config cls items config)
      | _ \<Rightarrow> Inl TypeError)"

text \<open>
  \<open>load_config\<close>. The argument stands for the file at \<open>config_path\<close>: \<open>None\<close> when
  the path does not exist, otherwise what \<open>open\<close> and \<open>yaml.safe_load\<close> produce, an
  exception or the loaded value. \<open>.items()\<close> exists on mappings only. \<open>cls\<close> is
  the class of the \<open>Config\<close> object.
\<close>

definition load_config :: "py_class \<Rightarrow> (py_exception + yaml) option \<Rightarrow> py_exception + config" where
  "load_config cls file =
     (case file of
        None \<Rightarrow> Inl FileNotFoundError
      | Some (Inl e) \<Rightarrow> Inl e
      | Some (Inr config_data) \<Rightarrow>
          (if truthy config_data
           then (case config_data of
                   YMap items \<Rightarrow> update_config cls items (Config ())
                 | _ \<Rightarrow> Inl AttributeError)
           else Inr (Config ())))"

section \<open>The browser-automation layer\<close>

text \<open>
  What the code asks of Playwright, as data. A page is a snapshot of the rendered
  document: each query is a function from the selector to the outcome of the call, an
  exception or its result. An element handle answers \<open>get_attribute\<close> and
  \<open>query_selector_all\<close>; \<open>click\<close> raises or yields the page as it is after the
  click. The page does not change on its own between two calls; the fixed settle
  delays (\<open>asyncio.sleep(2)\<close>) have no effect on a snapshot.
\<close>

datatype element = Element
    (get_attribute: "string \<Rightarrow> py_exception + string option")
    (click: "py_exception + page")
    (element_query_selector_all: "string \<Rightarrow> py_exception + element list")
  and page = Page
    (wait_for_selector: "string \<Rightarrow> real \<Rightarrow> py_exception + element option")
    (query_selector: "string \<Rightarrow> py_exception + element option")
    (query_selector_all: "string \<Rightarrow> py_exception + element list")

text \<open>\<open>if s:\<close> on an optional string: \<open>None\<close> and the empty string are falsy.\<close>

definition is_truthy :: "string option \<Rightarrow> bool" where
  "is_truthy s = (case s of None \<Rightarrow> False | Some u \<Rightarrow> u \<noteq> [])"

text \<open>\<open>href and _is_valid_download_url(href)\<close>.\<close>

definition is_valid_attribute :: "string option \<Rightarrow> bool" where
  "is_valid_attribute s = (case s of None \<Rightarrow> False | Some u \<Rightarrow> u \<noteq> [] \<and> is_valid_download_url u)"

section \<open>extractor.py: the extraction strategies\<close>

definition popup_selectors :: "string list" where
  "popup_selectors =
     [''a.download-link'', ''a[download]'', ''.modal a[href*='.mp4']'',
      ''.popup a[href*='download']'']"

text \<open>
  \<open>_check_for_popup_link\<close>: every exception inside the loop body is swallowed and the
  loop goes on with the next selector.
\<close>

fun check_popup_selectors :: "string list \<Rightarrow> page \<Rightarrow> string option" where
  "check_popup_selectors [] page = None"
| "check_popup_selectors (selector # rest) page =
     (case query_selector page selector of
        Inl e \<Rightarrow> check_popup_selectors rest page
      | Inr None \<Rightarrow> check_popup_selectors rest page
      | Inr (Some element) \<Rightarrow>
          (case get_attribute element ''href'' of
             Inl e \<Rightarrow> check_popup_selectors rest page
           | Inr href \<Rightarrow>
               if is_valid_attribute href then href
               else check_popup_selectors rest page))"

definition check_for_popup_link :: "page \<Rightarrow> string option" where
  "check_for_popup_link page = check_popup_selectors popup_selectors page"

definition selectors :: "string list" where
  "selectors =
     [''a.download-button'', ''a[data-download]'', ''a.video-download'',
      ''a[href*='download']'', ''a[href*='.mp4']'', ''a[href*='.m3u8']'',
      ''a[href*='.mpd']'', ''button.download-button'', ''[data-download-url]'',
      ''[data-video-url]'']"

text \<open>
  One iteration of the loop of \<open>_try_find_download_link\<close>, for one selector with its
  share of the timeout (in milliseconds). The result is the value returned from inside
  the loop, or \<open>None\<close> when the iteration ends without a \<open>return\<close> (also through the
  \<open>except\<close> clause), and the page as the iteration leaves it (changed by a click).
\<close>

definition try_selector :: "page \<Rightarrow> real \<Rightarrow> string \<Rightarrow> string option \<times> page" where
  "try_selector page selector_timeout selector =
     (case wait_for_selector page selector selector_timeout of
        Inl e \<Rightarrow> (None, page)
      | Inr None \<Rightarrow> (None, page)
      | Inr (Some element) \<Rightarrow>
          (case get_attribute element ''href'' of
             Inl e \<Rightarrow> (None, page)
           | Inr href \<Rightarrow>
               if is_valid_attribute href then (href, page)
               else
                 (case get_attribute element ''data-download-url'' of
                    Inl e \<Rightarrow> (None, page)
                  | Inr data_url \<Rightarrow>
                      if is_valid_attribute data_url then (data_url, page)
                      else
                        (case get_attribute element ''data-video-url'' of
                           Inl e \<Rightarrow> (None, page)
                         | Inr data_video \<Rightarrow>
                             if is_valid_attribute data_video then (data_video, page)
                             else if sublist ''button'' selector
                             then (case click element of
                                     Inl e \<Rightarrow> (None, page)
                                   | Inr clicked \<Rightarrow>
                                       (let popup_url = check_for_popup_link clicked
                                        in if is_truthy popup_url then (popup_url, clicked)
                                           else (None, clicked)))
                             else (None, page)))))"

fun try_selectors :: "string list \<Rightarrow> page \<Rightarrow> real \<Rightarrow> string option \<times> page" where
  "try_selectors [] page selector_timeout = (None, page)"
| "try_selectors (selector # rest) page selector_timeout =
     (case try_selector page selector_timeout selector of
        (Some url, page') \<Rightarrow> (Some url, page')
      | (None, page') \<Rightarrow> try_selectors rest page' selector_timeout)"

text \<open>
  \<open>_try_find_download_link\<close>: the timeout in seconds is divided among the selectors,
  \<open>timeout * 1000 / len(selectors)\<close>.
\<close>

definition try_find_download_link :: "page \<Rightarrow> int \<Rightarrow> string option \<times> page" where
  "try_find_download_link page timeout =
     try_selectors selectors page (real_of_int timeout * 1000 / real (length selectors))"

text \<open>
  \<open>_extract_from_video_source\<close>: no exception is caught here; the inner loop over the
  \<open>source\<close> children returns from the function on the first valid source.
\<close>

fun scan_source_elements :: "element list \<Rightarrow> py_exception + string option" where
  "scan_source_elements [] = Inr None"
| "scan_source_elements (source # rest) =
     (case get_attribute source ''src'' of
        Inl e \<Rightarrow> Inl e
      | Inr src \<Rightarrow> if is_valid_attribute src then Inr src else scan_source_elements rest)"

fun scan_video_elements :: "element list \<Rightarrow> py_exception + string option" where
  "scan_video_elements [] = Inr None"
| "scan_video_elements (video # rest) =
     (case get_attribute video ''src'' of
        Inl e \<Rightarrow> Inl e
      | Inr src \<Rightarrow>
          if is_valid_attribute src then Inr src
          else
            (case element_query_selector_all video ''source'' of
               Inl e \<Rightarrow> Inl e
             | Inr source_elements \<Rightarrow>
                 (case scan_source_elements source_elements of
                    Inl e \<Rightarrow> Inl e
                  | Inr (Some url) \<Rightarrow> Inr (Some url)
                  | Inr None \<Rightarrow> scan_video_elements rest)))"

definition extract_from_video_source :: "page \<Rightarrow> py_exception + string option" where
  "extract_from_video_source page =
     (case query_selector_all page ''video'' of
        Inl e \<Rightarrow> Inl e
      | Inr video_elements \<Rightarrow> scan_video_elements video_elements)"

definition video_hosts :: "string list" where
  "video_hosts =
     [''youtube.com/embed'', ''player.vimeo.com'', ''dailymotion.com/embed'',
      ''streamable.com/e'', ''jwplayer'', ''brightcove'', ''vidyard'', ''wistia'', ''videojs'']"

definition is_iframe_video_source :: "string \<Rightarrow> bool" where
  "is_iframe_video_source url = (if url = [] then False else any_in video_hosts url)"

fun scan_iframe_elements :: "element list \<Rightarrow> py_exception + string option" where
  "scan_iframe_elements [] = Inr None"
| "scan_iframe_elements (iframe # rest) =
     (case get_attribute iframe ''src'' of
        Inl e \<Rightarrow> Inl e
      | Inr src \<Rightarrow>
          (case src of
             None \<Rightarrow> scan_iframe_elements rest
           | Some url \<Rightarrow>
               if url \<noteq> [] \<and> is_iframe_video_source url then Inr (Some url)
               else scan_iframe_elements rest))"

definition extract_from_iframe :: "page \<Rightarrow> py_exception + string option" where
  "extract_from_iframe page =
     (case query_selector_all page ''iframe'' of
        Inl e \<Rightarrow> Inl e
      | Inr iframe_elements \<Rightarrow> scan_iframe_elements iframe_elements)"

text \<open>
  \<open>extract_download_url\<close>: the four strategies in the order of the source, each result
  tested with \<open>if download_url:\<close>. The media-element and embedded-frame scans see the
  page as the static-selector scan left it. \<open>xhr_responses\<close> is the content of the
  captured-response dict when the second strategy reads it.
\<close>

definition extract_download_url :: "page \<Rightarrow> xhr_dict \<Rightarrow> int \<Rightarrow> py_exception + string option" where
  "extract_download_url page xhr_responses timeout =
     (case try_find_download_link page timeout of
        (found, page') \<Rightarrow>
          if is_truthy found then Inr found
          else
            (let from_xhr = analyze_xhr_responses xhr_responses
             in if is_truthy from_xhr then Inr from_xhr
                else
                  (case extract_from_video_source page' of
                     Inl e \<Rightarrow> Inl e
                   | Inr from_video \<Rightarrow>
                       if is_truthy from_video then Inr from_video
                       else
                         (case extract_from_iframe page' of
                            Inl e \<Rightarrow> Inl e
                          | Inr from_iframe \<Rightarrow>
                              if is_truthy from_iframe then Inr from_iframe
                              else Inr None))))"

text \<open>A page with one static download link, used as a concrete instance below.\<close>

definition example_link :: element where
  "example_link =
     Element
       (\<lambda>name. if name = ''href'' then Inr (Some ''https://cdn.example.com/video/abc.mp4'')
               else Inr None)
       (Inl PlaywrightError)
       (\<lambda>selector. Inr [])"

definition example_page :: page where
  "example_page =
     Page
       (\<lambda>selector selector_timeout.
          if selector = ''a.download-button'' then Inr (Some example_link)
          else Inl PlaywrightError)
       (\<lambda>selector. Inr None)
       (\<lambda>selector. Inr [])"

section \<open>browser_client.py: the browser client\<close>

text \<open>
  The Playwright side of a run: how many browsers have been launched and how many
  contexts have been created so far. A launched browser and a created context are
  identified by their number.
\<close>

record playwright =
  browsers :: nat
  contexts :: nat

text \<open>
  \<open>BrowserClient\<close>. The fields \<open>browser\<close> and \<open>context\<close> are \<open>None\<close> until
  \<open>initialize\<close> has run; \<open>xhr_responses\<close> is the one dict of the client, created in
  \<open>__init__\<close> and shared by all its fetches.
\<close>

record browser_client =
  rate_limiter :: rate_limiter
  timeout :: int
  browser :: "nat option"
  browser_context :: "nat option"
  xhr_responses :: xhr_dict

definition BrowserClient :: "int \<Rightarrow> int \<Rightarrow> int \<Rightarrow> browser_client" where
  "BrowserClient delay max_per_minute timeout_seconds =
     \<lparr>rate_limiter = RateLimiter delay max_per_minute, timeout = timeout_seconds,
      browser = None, browser_context = None, xhr_responses = []\<rparr>"

text \<open>
  \<open>initialize\<close>: launches a browser and creates a context, unconditionally, and stores
  the two handles. Launching is taken to succeed.
\<close>

definition initialize :: "browser_client \<Rightarrow> playwright \<Rightarrow> browser_client \<times> playwright" where
  "initialize self pw =
     (self\<lparr>browser := Some (browsers pw), browser_context := Some (contexts pw)\<rparr>,
      pw\<lparr>browsers := browsers pw + 1, contexts := contexts pw + 1\<rparr>)"

text \<open>Lines 112-113 of \<open>fetch_and_extract\<close>: the lazy call of \<open>initialize\<close>.\<close>

definition ensure_initialized :: "browser_client \<Rightarrow> playwright \<Rightarrow> browser_client \<times> playwright" where
  "ensure_initialized self pw =
     (if browser self = None \<or> browser_context self = None then initialize self pw
      else (self, pw))"

text \<open>
  What the browser does during one fetch:
  \<^item> \<open>entered\<close> and \<open>clock_lag\<close>: the clock of the rate limiter's critical section;
  \<^item> \<open>new_page\<close>, \<open>page_on\<close>, \<open>page_close\<close>: the exception raised by
    \<open>context.new_page()\<close>, \<open>page.on(...)\<close>, \<open>page.close()\<close>, if any;
  \<^item> \<open>responses\<close>: the response events of the page, as pairs of resource type and
    URL, in the order in which \<open>_handle_response\<close> handles them;
  \<^item> \<open>goto\<close>: the outcome of the navigation, an exception or the rendered page.
\<close>

record fetch_env =
  entered :: real
  clock_lag :: real
  new_page :: "py_exception option"
  page_on :: "py_exception option"
  responses :: "(string \<times> string) list"
  goto :: "string \<Rightarrow> py_exception + page"
  page_close :: "py_exception option"

text \<open>The listener applied to the response events of a page, in order.\<close>

definition handle_responses :: "(string \<times> string) list \<Rightarrow> xhr_dict \<Rightarrow> xhr_dict" where
  "handle_responses events d = fold (\<lambda>(resource_type, url). handle_response resource_type url) events d"

text \<open>
  The \<open>try\<close> block of \<open>fetch_and_extract\<close> (lines 122-140): register the listener,
  navigate, extract. The responses of the page are handled while the navigation and
  the settle delay are awaited, so the dict is filled also when the navigation fails.
\<close>

definition navigate_and_extract ::
  "browser_client \<Rightarrow> fetch_env \<Rightarrow> string \<Rightarrow> (py_exception + string option) \<times> browser_client" where
  "navigate_and_extract self env url =
     (case page_on env of
        Some e \<Rightarrow> (Inl e, self)
      | None \<Rightarrow>
          (let self' = self\<lparr>xhr_responses := handle_responses (responses env) (xhr_responses self)\<rparr>
           in case goto env url of
                Inl e \<Rightarrow> (Inl e, self')
              | Inr page \<Rightarrow> (extract_download_url page (xhr_responses self') (timeout self'), self')))"

text \<open>
  \<open>fetch_and_extract\<close>, one fetch running alone. The result is the outcome for the
  caller, an exception that propagates or the returned value, with the client and the
  Playwright state as the call leaves them. The rate limiter, the lazy initialization
  and \<open>context.new_page()\<close> run before the \<open>try\<close>; \<open>except Exception\<close> turns an
  exception of the \<open>try\<close> block into \<open>None\<close>; the \<open>finally\<close> clause closes the page, and
  an exception of \<open>page.close()\<close> replaces the value being returned.
\<close>

definition fetch_and_extract ::
  "browser_client \<Rightarrow> playwright \<Rightarrow> fetch_env \<Rightarrow> string \<Rightarrow>
     (py_exception + string option) \<times> browser_client \<times> playwright" where
  "fetch_and_extract self pw env url =
     (case wait_for_request (rate_limiter self) (entered env) (clock_lag env) of
        Inl e \<Rightarrow>
          (Inl e,
           self\<lparr>rate_limiter := (rate_limiter self)\<lparr>request_times :=
                    filter (\<lambda>t. t > entered env - 60) (request_times (rate_limiter self))\<rparr>\<rparr>,
           pw)
      | Inr limiter \<Rightarrow>
          (case ensure_initialized (self\<lparr>rate_limiter := limiter\<rparr>) pw of
             (self1, pw') \<Rightarrow>
               (let self2 = self1\<lparr>xhr_responses := []\<rparr>
                in case new_page env of
                     Some e \<Rightarrow> (Inl e, self2, pw')
                   | None \<Rightarrow>
                       (case navigate_and_extract self2 env url of
                          (attempt, self3) \<Rightarrow>
                            (let download_url = (case attempt of Inl e \<Rightarrow> None | Inr r \<Rightarrow> r)
                             in case page_close env of
                                  Some e \<Rightarrow> (Inl e, self3, pw')
                                | None \<Rightarrow> (Inr download_url, self3, pw'))))))"

section \<open>Concurrent fetches on one client\<close>

text \<open>
  \<open>main\<close> starts all fetches of a batch with \<open>asyncio.gather\<close> on one client. A fetch
  gives up control at each \<open>await\<close>, and between two \<open>await\<close>s its code runs without
  interruption, so a run of the batch is a sequence of such uninterrupted steps of the
  fetches. Three kinds of step touch \<open>self.xhr_responses\<close>:
  \<^item> \<open>Clear f\<close>: fetch \<open>f\<close> runs \<open>self.xhr_responses.clear()\<close> (line 116);
  \<^item> \<open>Response f resource_type url\<close>: the listener of the page of fetch \<open>f\<close> runs
    \<open>_handle_response\<close> on a response of that page;
  \<^item> \<open>Analyze f\<close>: the pipeline of fetch \<open>f\<close> reads the dict it was handed
    (\<open>_analyze_xhr_responses\<close>), which is that same object.
  \<open>run_fetches\<close> runs a schedule on the dict and lists, for every \<open>Analyze f\<close>, the
  fetch and the content of the dict that its pipeline reads.
\<close>

datatype fetch_step = Clear nat | Response nat string string | Analyze nat

fun run_fetches :: "fetch_step list \<Rightarrow> xhr_dict \<Rightarrow> (nat \<times> xhr_dict) list" where
  "run_fetches [] d = []"
| "run_fetches (Clear f # steps) d = run_fetches steps []"
| "run_fetches (Response f resource_type url # steps) d =
     run_fetches steps (handle_response resource_type url d)"
| "run_fetches (Analyze f # steps) d = (f, d) # run_fetches steps d"

section \<open>Properties of the validity predicate\<close>

lemma is_valid_download_url_iff:
  "is_valid_download_url url \<longleftrightarrow>
     (prefix ''http://'' url \<or> prefix ''https://'' url) \<and> any_in valid_video_patterns url"
  by (auto simp: is_valid_download_url_def)

text \<open>
  C6. The validity predicate accepts a string exactly when it starts with
  \<open>http://\<close> or \<open>https://\<close> and contains one of the seven markers; so it rejects
  every string without such a scheme and every string without a marker, and it
  accepts \<open>https://cdn.example.com/video/abc.mp4\<close>.
\<close>

theorem C6_validity_predicate:
  "(is_valid_download_url url \<longleftrightarrow>
      (prefix ''http://'' url \<or> prefix ''https://'' url) \<and>
      (sublist ''.mp4'' url \<or> sublist ''.m3u8'' url \<or> sublist ''.mpd'' url \<or>
       sublist ''/media/'' url \<or> sublist ''/video/'' url \<or> sublist ''stream'' url \<or>
       sublist ''download'' url))
   \<and> (\<not> (prefix ''http://'' url \<or> prefix ''https://'' url) \<longrightarrow> \<not> is_valid_download_url url)
   \<and> (\<not> any_in valid_video_patterns url \<longrightarrow> \<not> is_valid_download_url url)
   \<and> is_valid_download_url ''https://cdn.example.com/video/abc.mp4''"
proof -
  have ex: "is_valid_download_url ''https://cdn.example.com/video/abc.mp4''"
    by code_simp
  show ?thesis
    using ex
    by (auto simp: is_valid_download_url_iff any_in_def valid_video_patterns_def)
qed

theorem C6_validity_predicate_witness:
  "\<not> is_valid_download_url ''ftp://cdn.example.com/video/abc.mp4''
   \<and> \<not> is_valid_download_url ''https://cdn.example.com/index.html''
   \<and> is_valid_download_url ''http://cdn.example.com/download''"
proof -
  have a: "\<not> (prefix ''http://'' ''ftp://cdn.example.com/video/abc.mp4''
            \<or> prefix ''https://'' ''ftp://cdn.example.com/video/abc.mp4'')"
    by simp
  have b: "\<not> any_in valid_video_patterns ''https://cdn.example.com/index.html''"
    by code_simp
  have c: "prefix ''http://'' ''http://cdn.example.com/download''"
    by simp
  have d: "sublist ''download'' ''http://cdn.example.com/download''"
    by code_simp
  show ?thesis
    using a b c d
      C6_validity_predicate [of "''ftp://cdn.example.com/video/abc.mp4''"]
      C6_validity_predicate [of "''https://cdn.example.com/index.html''"]
      C6_validity_predicate [of "''http://cdn.example.com/download''"]
    by blast
qed

section \<open>Properties of deduplication\<close>

lemma deduplicate_loop_append:
  "deduplicate_loop (xs @ ys) seen result =
     deduplicate_loop ys (seen \<union> (set xs - {[]})) (deduplicate_loop xs seen result)"
proof (induction xs arbitrary: seen result)
  case Nil
  show ?case by simp
next
  case (Cons x xs)
  show ?case
  proof (cases "x \<noteq> [] \<and> x \<notin> seen")
    case True
    have s: "insert x seen \<union> (set xs - {[]}) = seen \<union> (set (x # xs) - {[]})"
      using True by auto
    have "deduplicate_loop ((x # xs) @ ys) seen result
        = deduplicate_loop (xs @ ys) (insert x seen) (result @ [x])"
      using True by simp
    also have "\<dots> = deduplicate_loop ys (insert x seen \<union> (set xs - {[]}))
                       (deduplicate_loop xs (insert x seen) (result @ [x]))"
      by (rule Cons.IH)
    also have "deduplicate_loop xs (insert x seen) (result @ [x])
             = deduplicate_loop (x # xs) seen result"
      using True by simp
    finally show ?thesis by (simp only: s)
  next
    case False
    have s: "seen \<union> (set xs - {[]}) = seen \<union> (set (x # xs) - {[]})"
      using False by auto
    have "deduplicate_loop ((x # xs) @ ys) seen result = deduplicate_loop (xs @ ys) seen result"
      using False by auto
    also have "\<dots> = deduplicate_loop ys (seen \<union> (set xs - {[]})) (deduplicate_loop xs seen result)"
      by (rule Cons.IH)
    also have "deduplicate_loop xs seen result = deduplicate_loop (x # xs) seen result"
      using False by auto
    finally show ?thesis by (simp only: s)
  qed
qed

lemma deduplicate_links_snoc:
  "deduplicate_links (xs @ [x]) =
     deduplicate_links xs @ (if x \<noteq> [] \<and> x \<notin> set xs then [x] else [])"
  unfolding deduplicate_links_def deduplicate_loop_append by simp


lemma deduplicate_links_Nil: "deduplicate_links [] = []"
  by (simp add: deduplicate_links_def)

lemma first_nonempty_occurrences_snoc:
  "first_nonempty_occurrences (xs @ [x]) =
     first_nonempty_occurrences xs @ (if x \<noteq> [] \<and> x \<notin> set xs then [x] else [])"
proof -
  let ?P = "\<lambda>ys i. ys ! i \<noteq> [] \<and> ys ! i \<notin> set (take i ys)"
  have f: "filter (?P (xs @ [x])) [0..<length xs] = filter (?P xs) [0..<length xs]"
    by (rule filter_cong) (auto simp: nth_append)
  have m: "map (\<lambda>i. (xs @ [x]) ! i) (filter (?P xs) [0..<length xs])
         = map (\<lambda>i. xs ! i) (filter (?P xs) [0..<length xs])"
    by (rule map_cong) (auto simp: nth_append)
  show ?thesis
    unfolding first_nonempty_occurrences_def using f m by (simp add: nth_append)
qed

lemma deduplicate_links_eq: "deduplicate_links xs = first_nonempty_occurrences xs"
proof (induction xs rule: rev_induct)
  case Nil
  show ?case by (simp add: deduplicate_links_def first_nonempty_occurrences_def)
next
  case (snoc x xs)
  then show ?case by (simp only: deduplicate_links_snoc first_nonempty_occurrences_snoc)
qed

lemma set_deduplicate_links: "set (deduplicate_links xs) = set xs - {[]}"
  by (induction xs rule: rev_induct) (auto simp: deduplicate_links_snoc deduplicate_links_Nil)

lemma distinct_deduplicate_links: "distinct (deduplicate_links xs)"
  by (induction xs rule: rev_induct)
     (auto simp: deduplicate_links_snoc deduplicate_links_Nil set_deduplicate_links)

lemma first_nonempty_filter:
  "first_nonempty_occurrences xs = filter (\<lambda>l. l \<noteq> []) (first_occurrences xs)"
proof -
  have "filter (\<lambda>i. xs ! i \<noteq> [] \<and> xs ! i \<notin> set (take i xs)) [0..<length xs]
      = filter (\<lambda>i. xs ! i \<notin> set (take i xs) \<and> xs ! i \<noteq> []) [0..<length xs]"
    by (rule filter_cong) auto
  then show ?thesis
    by (simp add: first_nonempty_occurrences_def first_occurrences_def filter_map comp_def)
qed

lemma deduplicate_links_no_empty:
  assumes "[] \<notin> set xs"
  shows "deduplicate_links xs = first_occurrences xs"
proof -
  have "filter (\<lambda>l. l \<noteq> []) (first_occurrences xs) = first_occurrences xs"
    by (rule filter_True) (use assms in \<open>auto simp: first_occurrences_def dest: nth_mem\<close>)
  then show ?thesis
    by (simp add: deduplicate_links_eq first_nonempty_filter)
qed

lemma deduplicate_links_example:
  "deduplicate_links [''a'', ''b'', ''a'', ''c''] = [''a'', ''b'', ''c'']"
  by (simp add: deduplicate_links_def)

text \<open>
  C9, as stated, at the input \<open>["", "a"]\<close>: the empty string is a distinct value of
  the input, its first occurrence is at index 0, and the result does not contain it.
\<close>

theorem C9_dedup_counterexample:
  "first_occurrences ['''', ''a''] = ['''', ''a'']
   \<and> deduplicate_links ['''', ''a''] = [''a'']
   \<and> count_list (deduplicate_links ['''', ''a'']) '''' \<noteq> 1"
proof -
  have a: "first_occurrences ['''', ''a''] = ['''', ''a'']"
    by code_simp
  have b: "deduplicate_links ['''', ''a''] = [''a'']"
    by (simp add: deduplicate_links_def)
  show ?thesis using a b by simp
qed

text \<open>
  C9, amended. Deduplication returns the first occurrences, in original order, of the
  non-empty links: the result is the list of first occurrences with the empty string
  filtered out, it has no duplicates, its elements are exactly the non-empty elements
  of the input, and on an input without empty strings it is the list of first
  occurrences itself; \<open>["a","b","a","c"]\<close> yields \<open>["a","b","c"]\<close>.
\<close>

theorem C9_dedup_first_nonempty_occurrences:
  "deduplicate_links links = filter (\<lambda>l. l \<noteq> []) (first_occurrences links)
   \<and> distinct (deduplicate_links links)
   \<and> set (deduplicate_links links) = set links - {[]}
   \<and> ([] \<notin> set links \<longrightarrow> deduplicate_links links = first_occurrences links)
   \<and> deduplicate_links [''a'', ''b'', ''a'', ''c''] = [''a'', ''b'', ''c'']"
  using deduplicate_links_eq [of links] first_nonempty_filter [of links]
    distinct_deduplicate_links [of links] set_deduplicate_links [of links]
    deduplicate_links_no_empty [of links] deduplicate_links_example
  by simp

theorem C9_dedup_first_nonempty_occurrences_witness:
  "[] \<notin> set [''a'', ''b'', ''a'', ''c'']
   \<and> first_occurrences [''a'', ''b'', ''a'', ''c''] = [''a'', ''b'', ''c'']"
proof -
  have h: "[] \<notin> set [''a'', ''b'', ''a'', ''c'']"
    by simp
  from C9_dedup_first_nonempty_occurrences [of "[''a'', ''b'', ''a'', ''c'']"] h
  have "deduplicate_links [''a'', ''b'', ''a'', ''c''] = first_occurrences [''a'', ''b'', ''a'', ''c'']"
    and "deduplicate_links [''a'', ''b'', ''a'', ''c''] = [''a'', ''b'', ''c'']"
    by blast+
  then have "first_occurrences [''a'', ''b'', ''a'', ''c''] = [''a'', ''b'', ''c'']"
    by simp
  with h show ?thesis by blast
qed

section \<open>The marker asymmetry between capture and analysis\<close>

lemma dict_set_key_in_values: "v \<in> set (dict_values (dict_set d k v))"
proof (induction d)
  case Nil
  show ?case by (simp add: dict_values_def)
next
  case (Cons p d)
  obtain k' v' where p: "p = (k', v')" by (cases p)
  show ?case using Cons.IH by (simp add: p dict_values_def)
qed

lemma analyze_values_Some:
  "analyze_values urls = Some u \<Longrightarrow>
     u \<in> set urls \<and> any_in xhr_video_patterns u \<and> is_valid_download_url u"
  by (induction urls) (auto split: if_splits)

text \<open>
  C10. A response URL that contains \<open>download\<close> but none of the six patterns of the
  captured-response analysis, on a response of kind fetch, xhr or media, is inserted
  into the captured-response dict by the listener, and the analysis returns it for no
  dict at all, although the validity predicate accepts it when it is an http(s) URL.
  The pattern \<open>download\<close> is in the capture filter and in the validity predicate's
  list and is missing from the analysis list.
\<close>

theorem C10_download_marker_asymmetry:
  assumes "resource_type \<in> {''fetch'', ''xhr'', ''media''}"
    and "prefix ''http://'' url \<or> prefix ''https://'' url"
    and "sublist ''download'' url"
    and "\<not> any_in xhr_video_patterns url"
  shows "url \<in> set (dict_values (handle_response resource_type url captured))
     \<and> analyze_xhr_responses (handle_response resource_type url captured) \<noteq> Some url
     \<and> analyze_xhr_responses d \<noteq> Some url
     \<and> is_valid_download_url url
     \<and> ''download'' \<in> set capture_patterns
     \<and> ''download'' \<in> set valid_video_patterns
     \<and> ''download'' \<notin> set xhr_video_patterns"
proof -
  have cap: "any_in capture_patterns url"
    using assms(3) by (simp add: any_in_def capture_patterns_def)
  have rt: "resource_type \<in> set capture_resource_types"
    using assms(1) by (simp add: capture_resource_types_def)
  have stored: "url \<in> set (dict_values (handle_response resource_type url captured))"
    using cap rt by (simp add: handle_response_def dict_set_key_in_values)
  have never: "analyze_xhr_responses d' \<noteq> Some url" for d'
    using analyze_values_Some [of "dict_values d'" url] assms(4)
    by (auto simp: analyze_xhr_responses_def)
  have valid: "is_valid_download_url url"
    using assms(2,3)
    by (simp add: is_valid_download_url_iff any_in_def valid_video_patterns_def)
  have lists: "''download'' \<in> set capture_patterns \<and> ''download'' \<in> set valid_video_patterns
     \<and> ''download'' \<notin> set xhr_video_patterns"
    by (simp add: capture_patterns_def valid_video_patterns_def xhr_video_patterns_def)
  show ?thesis using stored never valid lists by blast
qed

theorem C10_download_marker_asymmetry_witness:
  "''https://example.com/download?id=7''
      \<in> set (dict_values (handle_response ''xhr'' ''https://example.com/download?id=7'' []))
   \<and> analyze_xhr_responses (handle_response ''xhr'' ''https://example.com/download?id=7'' []) = None
   \<and> is_valid_download_url ''https://example.com/download?id=7''"
proof -
  have h1: "''xhr'' \<in> {''fetch'', ''xhr'', ''media''}"
    by simp
  have h2: "prefix ''http://'' ''https://example.com/download?id=7''
          \<or> prefix ''https://'' ''https://example.com/download?id=7''"
    by simp
  have h3: "sublist ''download'' ''https://example.com/download?id=7''"
    by code_simp
  have h4: "\<not> any_in xhr_video_patterns ''https://example.com/download?id=7''"
    by code_simp
  have none: "analyze_xhr_responses (handle_response ''xhr'' ''https://example.com/download?id=7'' []) = None"
    by code_simp
  show ?thesis
    using C10_download_marker_asymmetry [OF h1 h2 h3 h4, of "[]" "[]"] none
    by simp
qed

section \<open>Properties of the rate limiter\<close>

lemma py_min_Inr:
  "py_min xs = Inr m \<Longrightarrow> m \<in> set xs \<and> (\<forall>t \<in> set xs. m \<le> t)"
proof -
  assume a: "py_min xs = Inr m"
  then obtain x rest where xs: "xs = x # rest" and m: "m = fold min rest x"
    by (auto simp: py_min_def split: list.splits)
  have "fold min rest x = Min (set (x # rest))"
    by (rule Min.set_eq_fold [symmetric])
  then show ?thesis using xs m by (metis List.finite_set Min_in Min_le list.distinct(1) set_empty)
qed

lemma py_min_nonempty: "xs \<noteq> [] \<Longrightarrow> \<exists>m. py_min xs = Inr m"
  by (cases xs) (simp_all add: py_min_def)

lemma py_max_Inr:
  "py_max xs = Inr m \<Longrightarrow> m \<in> set xs \<and> (\<forall>t \<in> set xs. t \<le> m)"
proof -
  assume a: "py_max xs = Inr m"
  then obtain x rest where xs: "xs = x # rest" and m: "m = fold max rest x"
    by (auto simp: py_max_def split: list.splits)
  have "fold max rest x = Max (set (x # rest))"
    by (rule Max.set_eq_fold [symmetric])
  then show ?thesis using xs m by (metis List.finite_set Max_in Max_ge list.distinct(1) set_empty)
qed

lemma py_max_nonempty: "xs \<noteq> [] \<Longrightarrow> \<exists>m. py_max xs = Inr m"
  by (cases xs) (simp_all add: py_max_def)

text \<open>What one completed call does to the recorded times.\<close>

lemma wait_for_request_Inr:
  assumes "wait_for_request self current_time lag = Inr self'"
  shows "\<exists>slept1 slept2.
      request_times self' =
        filter (\<lambda>t. t > current_time - 60) (request_times self) @ [current_time + slept1 + slept2 + lag]
    \<and> delay_between_requests self' = delay_between_requests self
    \<and> max_requests_per_minute self' = max_requests_per_minute self
    \<and> 0 \<le> slept1 \<and> 0 \<le> slept2
    \<and> (max_requests_per_minute self \<le> int (length (filter (\<lambda>t. t > current_time - 60) (request_times self)))
         \<longrightarrow> (\<exists>oldest \<in> set (filter (\<lambda>t. t > current_time - 60) (request_times self)).
                 oldest + 60 \<le> current_time + slept1))
    \<and> (\<forall>t \<in> set (filter (\<lambda>t. t > current_time - 60) (request_times self)).
          t + real_of_int (delay_between_requests self) \<le> current_time + slept2)"
proof -
  let ?times = "filter (\<lambda>t. t > current_time - 60) (request_times self)"
  let ?d = "real_of_int (delay_between_requests self)"
  let ?full = "max_requests_per_minute self \<le> int (length ?times)"
  define cap_sleep where "cap_sleep =
     (if ?full
      then (case py_min ?times of
              Inl e \<Rightarrow> Inl e
            | Inr oldest_time \<Rightarrow> Inr (max (60 - (current_time - oldest_time)) 0))
      else Inr 0)"
  define delay_sleep where "delay_sleep =
     (if ?times \<noteq> []
      then (case py_max ?times of
              Inl e \<Rightarrow> Inl e
            | Inr latest_time \<Rightarrow>
                (if current_time - latest_time < ?d
                 then Inr (?d - (current_time - latest_time)) else Inr 0))
      else Inr 0)"
  have unfolded: "wait_for_request self current_time lag =
     (case cap_sleep of
        Inl e \<Rightarrow> Inl e
      | Inr slept1 \<Rightarrow>
          (case delay_sleep of
             Inl e \<Rightarrow> Inl e
           | Inr slept2 \<Rightarrow>
               Inr (self\<lparr>request_times := ?times @ [current_time + slept1 + slept2 + lag]\<rparr>)))"
    by (simp only: wait_for_request_def Let_def cap_sleep_def delay_sleep_def)
  from assms unfolded obtain slept1 slept2 where
    c: "cap_sleep = Inr slept1" and d: "delay_sleep = Inr slept2"
    and eq: "self' = self\<lparr>request_times := ?times @ [current_time + slept1 + slept2 + lag]\<rparr>"
    by (auto split: sum.splits)
  have s1: "0 \<le> slept1"
    using c by (auto simp: cap_sleep_def split: if_splits sum.splits)
  have s2: "0 \<le> slept2"
    using d by (auto simp: delay_sleep_def split: if_splits sum.splits)
  have cap: "\<exists>oldest \<in> set ?times. oldest + 60 \<le> current_time + slept1" if full: ?full
  proof -
    from c full obtain m where m: "py_min ?times = Inr m"
      and sl: "slept1 = max (60 - (current_time - m)) 0"
      by (auto simp: cap_sleep_def split: sum.splits)
    from m have "m \<in> set ?times" using py_min_Inr by blast
    moreover have "m + 60 \<le> current_time + slept1"
      by (simp add: sl)
    ultimately show ?thesis by blast
  qed
  have del: "t + ?d \<le> current_time + slept2" if t: "t \<in> set ?times" for t
  proof -
    from t have ne: "?times \<noteq> []" by (metis empty_iff empty_set)
    with d obtain latest where l: "py_max ?times = Inr latest"
      and sl: "slept2 = (if current_time - latest < ?d then ?d - (current_time - latest) else 0)"
      by (auto simp: delay_sleep_def split: sum.splits if_splits)
    from l t have "t \<le> latest" using py_max_Inr by blast
    then show ?thesis by (simp add: sl)
  qed
  show ?thesis
    using eq s1 s2 cap del by (intro exI [of _ slept1] exI [of _ slept2]) simp
qed

lemma wait_for_request_total:
  assumes "1 \<le> max_requests_per_minute self"
  shows "\<exists>self'. wait_for_request self current_time lag = Inr self'"
proof -
  let ?times = "filter (\<lambda>t. t > current_time - 60) (request_times self)"
  show ?thesis
  proof (cases "?times = []")
    case True
    then show ?thesis using assms by (simp add: wait_for_request_def Let_def)
  next
    case False
    obtain m where m: "py_min ?times = Inr m" using False py_min_nonempty by blast
    obtain l where l: "py_max ?times = Inr l" using False py_max_nonempty by blast
    show ?thesis using False m l by (simp add: wait_for_request_def Let_def)
  qed
qed

lemma filter_narrow:
  assumes "\<And>x. P x \<Longrightarrow> Q x"
  shows "filter P (filter Q xs) = filter P xs"
  using assms by (induction xs) auto

lemma length_filter_mono:
  assumes "\<And>x. x \<in> set xs \<Longrightarrow> P x \<Longrightarrow> Q x"
  shows "length (filter P xs) \<le> length (filter Q xs)"
  using assms by (induction xs) auto

lemma filter_after_later:
  fixes a b :: real
  assumes "filter (\<lambda>t. a < t) xs = filter (\<lambda>t. a < t) ys" and "a \<le> b"
  shows "filter (\<lambda>t. b < t) xs = filter (\<lambda>t. b < t) ys"
proof -
  have "filter (\<lambda>t. b < t) xs = filter (\<lambda>t. b < t) (filter (\<lambda>t. a < t) xs)"
    by (rule filter_narrow [symmetric]) (use assms(2) in auto)
  also have "\<dots> = filter (\<lambda>t. b < t) (filter (\<lambda>t. a < t) ys)"
    by (simp only: assms(1))
  also have "\<dots> = filter (\<lambda>t. b < t) ys"
    by (rule filter_narrow) (use assms(2) in auto)
  finally show ?thesis .
qed

lemma limiter_inv_step:
  assumes inv: "limiter_inv M past self clock"
    and gap: "0 \<le> gap" and lag: "0 \<le> lag"
    and run: "wait_for_request self (clock + gap) lag = Inr self'"
  shows "request_times self' \<noteq> [] \<and> clock \<le> last (request_times self')
     \<and> limiter_inv M (past @ [last (request_times self')]) self' (last (request_times self'))"
proof -
  let ?cur = "clock + gap"
  let ?ts = "filter (\<lambda>t. ?cur - 60 < t) (request_times self)"
  from wait_for_request_Inr [OF run] obtain slept1 slept2 where
    rt: "request_times self' = ?ts @ [?cur + slept1 + slept2 + lag]"
    and mx: "max_requests_per_minute self' = max_requests_per_minute self"
    and s1: "0 \<le> slept1" and s2: "0 \<le> slept2"
    and cap: "max_requests_per_minute self \<le> int (length ?ts) \<longrightarrow>
               (\<exists>oldest \<in> set ?ts. oldest + 60 \<le> ?cur + slept1)"
    by blast
  define c where "c = ?cur + slept1 + slept2 + lag"
  have last_c: "last (request_times self') = c" and ne: "request_times self' \<noteq> []"
    using rt by (simp_all add: c_def)
  have cur_c: "?cur \<le> c" using s1 s2 lag by (simp add: c_def)
  have clock_c: "clock \<le> c" using cur_c gap by simp
  from inv have M: "max_requests_per_minute self = M"
    and below: "\<forall>t \<in> set past. t \<le> clock"
    and same: "filter (\<lambda>t. clock - 60 < t) (request_times self) = filter (\<lambda>t. clock - 60 < t) past"
    and win: "\<And>now. int (length (filter (\<lambda>t. now - 60 < t \<and> t \<le> now) past)) \<le> M"
    by (simp_all add: limiter_inv_def)
  have ts_past: "?ts = filter (\<lambda>t. ?cur - 60 < t) past"
    using filter_after_later [OF same, of "?cur - 60"] gap by simp
  have "filter (\<lambda>t. ?cur - 60 < t) past = filter (\<lambda>t. ?cur - 60 < t \<and> t \<le> ?cur) past"
    by (rule filter_cong) (use below gap in \<open>auto\<close>)
  then have len_ts: "int (length ?ts) \<le> M"
    using win [of ?cur] ts_past by simp
  have c_ts: "filter (\<lambda>t. c - 60 < t) ?ts = filter (\<lambda>t. c - 60 < t) past"
  proof -
    have "filter (\<lambda>t. c - 60 < t) ?ts = filter (\<lambda>t. c - 60 < t) (request_times self)"
      by (rule filter_narrow) (use cur_c in auto)
    also have "\<dots> = filter (\<lambda>t. c - 60 < t) past"
      using filter_after_later [OF same, of "c - 60"] clock_c by simp
    finally show ?thesis .
  qed
  have fewer: "int (length (filter (\<lambda>t. c - 60 < t) ?ts)) < M"
  proof (cases "max_requests_per_minute self \<le> int (length ?ts)")
    case True
    with cap obtain oldest where o: "oldest \<in> set ?ts" and o60: "oldest + 60 \<le> ?cur + slept1"
      by blast
    have "\<not> c - 60 < oldest" using o60 s2 lag by (simp add: c_def)
    with o have "length (filter (\<lambda>t. c - 60 < t) ?ts) < length ?ts"
      by (rule_tac length_filter_less) 
    with len_ts show ?thesis by simp
  next
    case False
    have "length (filter (\<lambda>t. c - 60 < t) ?ts) \<le> length ?ts"
      by (rule length_filter_le)
    with False M show ?thesis by simp
  qed
  have a: "\<forall>t \<in> set (past @ [c]). t \<le> c"
    using below clock_c by auto
  have b: "filter (\<lambda>t. c - 60 < t) (request_times self') = filter (\<lambda>t. c - 60 < t) (past @ [c])"
    using rt c_ts by (simp add: c_def)
  have w: "int (length (filter (\<lambda>t. now - 60 < t \<and> t \<le> now) (past @ [c]))) \<le> M" for now
  proof (cases "c \<le> now")
    case True
    have "length (filter (\<lambda>t. now - 60 < t \<and> t \<le> now) past)
        \<le> length (filter (\<lambda>t. c - 60 < t) past)"
      by (rule length_filter_mono) (use True in auto)
    with fewer c_ts have "int (length (filter (\<lambda>t. now - 60 < t \<and> t \<le> now) past)) < M"
      by simp
    then show ?thesis by simp
  next
    case False
    then show ?thesis using win [of now] by simp
  qed
  show ?thesis
    unfolding last_c using ne clock_c a b w M mx
    by (simp add: limiter_inv_def)
qed

lemma acquire_all_inv:
  assumes "limiter_inv M past self clock"
    and "\<forall>(gap, lag) \<in> set steps. 0 \<le> gap \<and> 0 \<le> lag"
    and "acquire_all self clock steps = Inr (self', completions)"
  shows "limiter_inv M (past @ completions) self' (last (clock # completions))
     \<and> length completions = length steps"
  using assms
proof (induction steps arbitrary: self clock past completions)
  case Nil
  then show ?case by simp
next
  case (Cons step steps)
  obtain gap lag where step: "step = (gap, lag)" by (cases step)
  from Cons.prems(2) step have nonneg: "0 \<le> gap" "0 \<le> lag"
    and rest: "\<forall>(gap, lag) \<in> set steps. 0 \<le> gap \<and> 0 \<le> lag"
    by auto
  from Cons.prems(3) step obtain self1 where
    one: "wait_for_request self (clock + gap) lag = Inr self1"
    by (auto split: sum.splits)
  let ?c = "last (request_times self1)"
  from Cons.prems(3) step one obtain completions' where
    more: "acquire_all self1 ?c steps = Inr (self', completions')"
    and comps: "completions = ?c # completions'"
    by (auto simp: Let_def split: sum.splits)
  from limiter_inv_step [OF Cons.prems(1) nonneg one]
  have inv1: "limiter_inv M (past @ [?c]) self1 ?c" by blast
  from Cons.IH [OF inv1 rest more]
  show ?case using comps by simp
qed

lemma acquire_all_total:
  assumes "1 \<le> max_requests_per_minute self"
  shows "\<exists>self' completions. acquire_all self clock steps = Inr (self', completions)
     \<and> max_requests_per_minute self' = max_requests_per_minute self"
  using assms
proof (induction steps arbitrary: self clock)
  case Nil
  then show ?case by simp
next
  case (Cons step steps)
  obtain gap lag where step: "step = (gap, lag)" by (cases step)
  from wait_for_request_total [OF Cons.prems] obtain self1 where
    one: "wait_for_request self (clock + gap) lag = Inr self1" by blast
  from wait_for_request_Inr [OF one]
  have "max_requests_per_minute self1 = max_requests_per_minute self" by blast
  with Cons.prems have "1 \<le> max_requests_per_minute self1" by simp
  from Cons.IH [OF this, of "last (request_times self1)"] 
  obtain self' completions where
    "acquire_all self1 (last (request_times self1)) steps = Inr (self', completions)"
    "max_requests_per_minute self' = max_requests_per_minute self1"
    by blast
  then show ?case
    using step one \<open>max_requests_per_minute self1 = max_requests_per_minute self\<close>
    by (simp add: Let_def)
qed

lemma limiter_inv_initial: "0 \<le> M \<Longrightarrow> limiter_inv M [] (RateLimiter d M) start"
  by (simp add: limiter_inv_def RateLimiter_def)

lemma acquire_all_nonpositive_cap:
  assumes "M \<le> 0" and "steps \<noteq> []"
  shows "acquire_all (RateLimiter d M) start steps = Inl ValueError"
proof -
  obtain gap lag rest where "steps = (gap, lag) # rest"
    using assms(2) by (cases steps) auto
  moreover have "wait_for_request (RateLimiter d M) (start + gap) lag = Inl ValueError"
    using assms(1) by (simp add: wait_for_request_def RateLimiter_def py_min_def)
  ultimately show ?thesis by simp
qed

text \<open>
  C2. Take a limiter with cap \<open>M\<close> and any sequence of calls in which time does not run
  backwards (every gap and every lag is non-negative). With a cap of at least one every
  call completes. Whenever the calls complete, each call has recorded one timestamp,
  and for every moment \<open>now\<close> the window \<open>(now - 60, now]\<close> holds at most \<open>M\<close> of the
  recorded timestamps; at every moment after the last call the limiter's own list
  holds at most \<open>M\<close> timestamps of the trailing window. (With no call at all the bound
  needs \<open>0 \<le> M\<close>; with a cap below one the first call raises ValueError.)
\<close>

theorem C2_window_cap:
  assumes "\<forall>(gap, lag) \<in> set steps. 0 \<le> gap \<and> 0 \<le> lag"
    and "steps \<noteq> [] \<or> 0 \<le> M"
  shows "(1 \<le> M \<longrightarrow> (\<exists>self' completions.
            acquire_all (RateLimiter d M) start steps = Inr (self', completions)))
     \<and> (\<forall>self' completions now.
            acquire_all (RateLimiter d M) start steps = Inr (self', completions) \<longrightarrow>
              length completions = length steps
              \<and> int (length (filter (\<lambda>t. now - 60 < t \<and> t \<le> now) completions)) \<le> M
              \<and> (last (start # completions) \<le> now \<longrightarrow> int (window_count self' now) \<le> M))"
proof -
  have total: "\<exists>self' completions.
      acquire_all (RateLimiter d M) start steps = Inr (self', completions)" if "1 \<le> M"
    using acquire_all_total [of "RateLimiter d M" start steps] that
    by (auto simp: RateLimiter_def)
  have safe: "length completions = length steps
      \<and> int (length (filter (\<lambda>t. now - 60 < t \<and> t \<le> now) completions)) \<le> M
      \<and> (last (start # completions) \<le> now \<longrightarrow> int (window_count self' now) \<le> M)"
    if run: "acquire_all (RateLimiter d M) start steps = Inr (self', completions)"
    for self' completions now
  proof -
    have M0: "0 \<le> M"
    proof (rule ccontr)
      assume "\<not> 0 \<le> M"
      then have "M \<le> 0" "steps \<noteq> []" using assms(2) by auto
      from acquire_all_nonpositive_cap [OF this] run show False by simp
    qed
    from acquire_all_inv [OF limiter_inv_initial [OF M0] assms(1) run]
    have inv: "limiter_inv M completions self' (last (start # completions))"
      and len: "length completions = length steps"
      by simp_all
    let ?c = "last (start # completions)"
    from inv have below: "\<forall>t \<in> set completions. t \<le> ?c"
      and same: "filter (\<lambda>t. ?c - 60 < t) (request_times self') = filter (\<lambda>t. ?c - 60 < t) completions"
      and win: "\<And>now. int (length (filter (\<lambda>t. now - 60 < t \<and> t \<le> now) completions)) \<le> M"
      unfolding limiter_inv_def by blast+
    have "int (window_count self' now) \<le> M" if later: "?c \<le> now"
    proof -
      have "filter (\<lambda>t. now - 60 < t) (request_times self') = filter (\<lambda>t. now - 60 < t) completions"
        using filter_after_later [OF same, of "now - 60"] later by simp
      also have "\<dots> = filter (\<lambda>t. now - 60 < t \<and> t \<le> now) completions"
        by (rule filter_cong) (use below later in \<open>auto\<close>)
      finally show ?thesis using win [of now] by (simp add: window_count_def)
    qed
    with len win show ?thesis by blast
  qed
  show ?thesis using total safe by blast
qed


theorem C2_window_cap_witness:
  "acquire_all (RateLimiter 5 2) 0 [(0, 0), (0, 0), (0, 0), (1, 0)] =
       Inr (\<lparr>delay_between_requests = 5, max_requests_per_minute = 2, request_times = [65, 70]\<rparr>,
            [0, 5, 65, 70])
   \<and> int (length (filter (\<lambda>t. 66 - 60 < t \<and> t \<le> 66) [0, 5, 65, 70 :: real])) \<le> 2
   \<and> int (window_count \<lparr>delay_between_requests = 5, max_requests_per_minute = 2,
                          request_times = [65, 70]\<rparr> 70) \<le> 2"
proof -
  let ?steps = "[(0, 0), (0, 0), (0, 0), (1, 0 :: real)] :: (real \<times> real) list"
  have h1: "\<forall>(gap, lag) \<in> set ?steps. 0 \<le> gap \<and> 0 \<le> lag"
    by simp
  have h2: "?steps \<noteq> [] \<or> 0 \<le> (2::int)"
    by simp
  have run: "acquire_all (RateLimiter 5 2) 0 ?steps =
       Inr (\<lparr>delay_between_requests = 5, max_requests_per_minute = 2, request_times = [65, 70]\<rparr>,
            [0, 5, 65, 70])"
    by (simp add: wait_for_request_def RateLimiter_def py_min_def py_max_def Let_def)
  from C2_window_cap [OF h1 h2, of 5 0] run
  have "int (length (filter (\<lambda>t. 66 - 60 < t \<and> t \<le> 66) [0, 5, 65, 70 :: real])) \<le> 2"
    and "last [0, 0, 5, 65, 70 :: real] \<le> 70 \<longrightarrow>
         int (window_count \<lparr>delay_between_requests = 5, max_requests_per_minute = 2,
                          request_times = [65, 70]\<rparr> 70) \<le> 2"
    by blast+
  with run show ?thesis by simp
qed

text \<open>
  C3, at a failing input: minimum delay 100 seconds, cap 10, a first call at time 0
  and a second call entered 70 seconds later. The first timestamp is pruned as older
  than 60 seconds before the delay is tested, the list is empty, no delay is applied,
  and the two recorded timestamps are 0 and 70, less than 100 seconds apart.
\<close>

theorem C3_min_delay_violated:
  "acquire_all (RateLimiter 100 10) 0 [(0, 0), (70, 0)] =
     Inr (\<lparr>delay_between_requests = 100, max_requests_per_minute = 10, request_times = [70]\<rparr>,
          [0, 70])"
  by (simp add: wait_for_request_def RateLimiter_def py_min_def py_max_def Let_def)

text \<open>
  For a minimum delay of at most 60 seconds the separation holds: a timestamp that has
  been pruned is at least 60 seconds old.
\<close>

lemma min_delay_step:
  assumes inv: "limiter_inv M past self clock"
    and gap: "0 \<le> gap" and lag: "0 \<le> lag"
    and run: "wait_for_request self (clock + gap) lag = Inr self'"
    and d60: "delay_between_requests self \<le> 60"
    and t: "t \<in> set past"
  shows "t + real_of_int (delay_between_requests self) \<le> last (request_times self')
     \<and> delay_between_requests self' = delay_between_requests self"
proof -
  let ?cur = "clock + gap"
  let ?ts = "filter (\<lambda>t. ?cur - 60 < t) (request_times self)"
  let ?d = "real_of_int (delay_between_requests self)"
  from wait_for_request_Inr [OF run] obtain slept1 slept2 where
    rt: "request_times self' = ?ts @ [?cur + slept1 + slept2 + lag]"
    and dl: "delay_between_requests self' = delay_between_requests self"
    and s1: "0 \<le> slept1" and s2: "0 \<le> slept2"
    and del: "\<forall>t \<in> set ?ts. t + ?d \<le> ?cur + slept2"
    by blast
  from inv have same: "filter (\<lambda>t. clock - 60 < t) (request_times self) = filter (\<lambda>t. clock - 60 < t) past"
    by (simp add: limiter_inv_def)
  have ts_past: "?ts = filter (\<lambda>t. ?cur - 60 < t) past"
    using filter_after_later [OF same, of "?cur - 60"] gap by simp
  have "t + ?d \<le> ?cur + slept2"
  proof (cases "?cur - 60 < t")
    case True
    with t ts_past have "t \<in> set ?ts" by simp
    with del show ?thesis by blast
  next
    case False
    moreover have "?d \<le> 60" using d60 by simp
    ultimately show ?thesis using s2 by simp
  qed
  then show ?thesis using rt dl s1 lag by simp
qed

lemma acquire_all_min_delay:
  assumes "limiter_inv M past self clock"
    and "\<forall>(gap, lag) \<in> set steps. 0 \<le> gap \<and> 0 \<le> lag"
    and "acquire_all self clock steps = Inr (self', completions)"
    and "delay_between_requests self \<le> 60"
    and "successively (\<lambda>a b. a + real_of_int (delay_between_requests self) \<le> b) past"
  shows "successively (\<lambda>a b. a + real_of_int (delay_between_requests self) \<le> b) (past @ completions)"
  using assms
proof (induction steps arbitrary: self clock past completions)
  case Nil
  then show ?case by simp
next
  case (Cons step steps)
  obtain gap lag where step: "step = (gap, lag)" by (cases step)
  from Cons.prems(2) step have nonneg: "0 \<le> gap" "0 \<le> lag"
    and rest: "\<forall>(gap, lag) \<in> set steps. 0 \<le> gap \<and> 0 \<le> lag"
    by auto
  from Cons.prems(3) step obtain self1 where
    one: "wait_for_request self (clock + gap) lag = Inr self1"
    by (auto split: sum.splits)
  let ?c = "last (request_times self1)"
  let ?P = "\<lambda>a b. a + real_of_int (delay_between_requests self) \<le> (b::real)"
  from Cons.prems(3) step one obtain completions' where
    more: "acquire_all self1 ?c steps = Inr (self', completions')"
    and comps: "completions = ?c # completions'"
    by (auto simp: Let_def split: sum.splits)
  from limiter_inv_step [OF Cons.prems(1) nonneg one]
  have inv1: "limiter_inv M (past @ [?c]) self1 ?c" by blast
  have dl: "delay_between_requests self1 = delay_between_requests self"
    using wait_for_request_Inr [OF one] by blast
  have "past = [] \<or> ?P (last past) ?c"
    using min_delay_step [OF Cons.prems(1) nonneg one Cons.prems(4), of "last past"]
    by (cases "past = []") simp_all
  with Cons.prems(5) have succ1: "successively ?P (past @ [?c])"
    by (auto simp: successively_append_iff)
  from Cons.IH [OF inv1 rest more, unfolded dl, OF Cons.prems(4) succ1]
  show ?case using comps by simp
qed

lemma min_delay_at_most_60:
  assumes "\<forall>(gap, lag) \<in> set steps. 0 \<le> gap \<and> 0 \<le> lag"
    and "d \<le> 60"
    and "acquire_all (RateLimiter d M) start steps = Inr (self', completions)"
  shows "successively (\<lambda>a b. a + real_of_int d \<le> b) completions"
proof (cases "steps = []")
  case True
  with assms(3) show ?thesis by simp
next
  case False
  have M0: "0 \<le> M"
  proof (rule ccontr)
    assume "\<not> 0 \<le> M"
    then have "M \<le> 0" by simp
    from acquire_all_nonpositive_cap [OF this False] assms(3) show False by simp
  qed
  have d: "delay_between_requests (RateLimiter d M) = d"
    by (simp add: RateLimiter_def)
  from acquire_all_min_delay [OF limiter_inv_initial [OF M0] assms(1) assms(3), unfolded d]
    assms(2)
  show ?thesis by simp
qed

section \<open>Properties of configuration loading\<close>

lemma dom_Config: "dom (Config ()) = set config_fields"
  by (auto simp: Config_def config_fields_def dom_def)

text \<open>
  On an object that has its fields, a key that the class does not define is an
  attribute exactly when it is a field, and assigning it keeps the set of attributes.
\<close>

lemma update_config_string_keys:
  assumes "\<forall>(key, v) \<in> set items. \<exists>name. key = YStr name \<and> cls name = None"
    and "dom config = set config_fields"
  shows "\<exists>config'. update_config cls items config = Inr config'
     \<and> dom config' = set config_fields
     \<and> update_config cls
          (filter (\<lambda>(key, v). \<exists>name \<in> set config_fields. key = YStr name) items) config
         = Inr config'"
  using assms
proof (induction items arbitrary: config)
  case Nil
  then show ?case by simp
next
  case (Cons item items)
  obtain key v where item: "item = (key, v)" by (cases item)
  from Cons.prems(1) item obtain name where key: "key = YStr name" and plain: "cls name = None"
    by auto
  from Cons.prems(1) have rest: "\<forall>(key, v) \<in> set items. \<exists>name. key = YStr name \<and> cls name = None"
    by simp
  have has: "hasattr cls config name \<longleftrightarrow> name \<in> set config_fields"
    using Cons.prems(2) plain by (auto simp: hasattr_def)
  have stored: "setattr cls config name v = Inr (config(name \<mapsto> v))"
    using plain by (simp add: setattr_def)
  let ?known = "\<lambda>(key, v). \<exists>name \<in> set config_fields. key = YStr name"
  show ?case
  proof (cases "name \<in> set config_fields")
    case True
    have d: "dom (config(name \<mapsto> v)) = set config_fields"
      using True Cons.prems(2) by auto
    from Cons.IH [OF rest d] obtain c where
      c: "update_config cls items (config(name \<mapsto> v)) = Inr c" "dom c = set config_fields"
         "update_config cls (filter ?known items) (config(name \<mapsto> v)) = Inr c"
      by blast
    have one: "update_config cls (item # items) config = Inr c"
      unfolding item key using True has stored c(1) by simp
    have "filter ?known (item # items) = (YStr name, v) # filter ?known items"
      using True by (simp add: item key)
    then have two: "update_config cls (filter ?known (item # items)) config = Inr c"
      using True has stored c(3) by simp
    show ?thesis using one two c(2) by blast
  next
    case False
    from Cons.IH [OF rest Cons.prems(2)] obtain c where
      c: "update_config cls items config = Inr c" "dom c = set config_fields"
         "update_config cls (filter ?known items) config = Inr c"
      by blast
    have one: "update_config cls (item # items) config = Inr c"
      unfolding item key using False has c(1) by simp
    have "filter ?known (item # items) = filter ?known items"
      using False by (simp add: item key)
    then have two: "update_config cls (filter ?known (item # items)) config = Inr c"
      using c(3) by simp
    show ?thesis using one two c(2) by blast
  qed
qed

text \<open>
  The inherited names of \<open>Config_class\<close> all begin with two underscores, and no field
  does.
\<close>

lemma Config_class_names:
  assumes "Config_class name \<noteq> None"
  shows "prefix ''__'' name"
proof -
  have "name \<in> dom Config_class" using assms by auto
  then have "name \<in> fst ` set
     [(''__annotations__'', Stores), (''__class__'', Refuses TypeError),
      (''__dataclass_fields__'', Stores), (''__dataclass_params__'', Stores),
      (''__delattr__'', Stores), (''__dict__'', ReplacesDict), (''__dir__'', Stores),
      (''__doc__'', Stores), (''__eq__'', Stores), (''__format__'', Stores),
      (''__ge__'', Stores), (''__getattribute__'', Stores), (''__getstate__'', Stores),
      (''__gt__'', Stores), (''__hash__'', Stores), (''__init__'', Stores),
      (''__init_subclass__'', Stores), (''__le__'', Stores), (''__lt__'', Stores),
      (''__match_args__'', Stores), (''__module__'', Stores), (''__ne__'', Stores),
      (''__new__'', Stores), (''__post_init__'', Stores), (''__reduce__'', Stores),
      (''__reduce_ex__'', Stores), (''__repr__'', Stores), (''__setattr__'', Stores),
      (''__sizeof__'', Stores), (''__str__'', Stores), (''__subclasshook__'', Stores),
      (''__weakref__'', Refuses AttributeError)]"
    unfolding Config_class_def dom_map_of_conv_image_fst .
  then show ?thesis by auto
qed

text \<open>
  Two keys that the class does define: \<open>__class__\<close> makes loading fail with TypeError,
  and a mapping under \<open>__dict__\<close> replaces the attributes of the object.
\<close>

lemma load_config_class_key:
  "load_config Config_class (Some (Inr (YMap [(YStr ''__class__'', YStr ''x'')]))) = Inl TypeError"
  by (simp add: load_config_def hasattr_def setattr_def Config_class_def)

lemma load_config_dict_key:
  "load_config Config_class
     (Some (Inr (YMap [(YStr ''__dict__'', YMap [(YStr ''timeout'', YInt 99)])])))
   = Inr [''timeout'' \<mapsto> YInt 99]"
  by (simp add: load_config_def hasattr_def setattr_def Config_class_def)

text \<open>
  C7, as stated, at the mapping \<open>{proxy: x}\<close>: the key is no configuration field, and
  loading returns the default configuration instead of an error.
\<close>

theorem C7_unknown_key_counterexample:
  "''proxy'' \<notin> set config_fields
   \<and> load_config Config_class (Some (Inr (YMap [(YStr ''proxy'', YStr ''x'')]))) = Inr (Config ())"
  by (simp add: load_config_def hasattr_def Config_def config_fields_def Config_class_def)

text \<open>
  C7, amended. For every configuration file whose mapping has string keys, none of
  them a name that the \<open>Config\<close> object inherits from its class (a double-underscore
  name such as \<open>__class__\<close> or \<open>__dict__\<close>), loading succeeds; the keys outside the
  recognized fields are silently ignored: the result has exactly the recognized fields,
  and it is the result of loading the mapping with the unrecognized keys removed.
\<close>

theorem C7_unknown_keys_ignored:
  assumes "\<forall>(key, v) \<in> set items. \<exists>name. key = YStr name \<and> cls name = None"
  shows "\<exists>config. load_config cls (Some (Inr (YMap items))) = Inr config
     \<and> dom config = set config_fields
     \<and> load_config cls (Some (Inr (YMap
          (filter (\<lambda>(key, v). \<exists>name \<in> set config_fields. key = YStr name) items)))) = Inr config"
proof (cases "items = []")
  case True
  then show ?thesis by (simp add: load_config_def dom_Config)
next
  case False
  let ?known = "filter (\<lambda>(key, v). \<exists>name \<in> set config_fields. key = YStr name) items"
  from update_config_string_keys [OF assms dom_Config] obtain config where
    c: "update_config cls items (Config ()) = Inr config" "dom config = set config_fields"
       "update_config cls ?known (Config ()) = Inr config"
    by blast
  have "load_config cls (Some (Inr (YMap ?known))) = Inr config"
  proof (cases "?known = []")
    case True
    with c(3) show ?thesis by (simp add: load_config_def)
  next
    case False
    with c(3) show ?thesis by (simp add: load_config_def)
  qed
  with c False show ?thesis
    by (simp add: load_config_def)
qed

theorem C7_unknown_keys_ignored_witness:
  "load_config Config_class
      (Some (Inr (YMap [(YStr ''timeout'', YInt 30), (YStr ''proxy'', YStr ''x'')])))
     = load_config Config_class (Some (Inr (YMap [(YStr ''timeout'', YInt 30)])))
   \<and> load_config Config_class
      (Some (Inr (YMap [(YStr ''timeout'', YInt 30), (YStr ''proxy'', YStr ''x'')])))
     = Inr ((Config ())(''timeout'' \<mapsto> YInt 30))"
proof -
  let ?items = "[(YStr ''timeout'', YInt 30), (YStr ''proxy'', YStr ''x'')]"
  have h: "\<forall>(key, v) \<in> set ?items. \<exists>name. key = YStr name \<and> Config_class name = None"
    by (simp add: Config_class_def)
  have f: "filter (\<lambda>(key, v). \<exists>name \<in> set config_fields. key = YStr name) ?items
         = [(YStr ''timeout'', YInt 30)]"
    by (simp add: config_fields_def)
  have r: "load_config Config_class (Some (Inr (YMap ?items)))
      = Inr ((Config ())(''timeout'' \<mapsto> YInt 30))"
    by (simp add: load_config_def hasattr_def setattr_def Config_def Config_class_def
          config_fields_def)
  from C7_unknown_keys_ignored [OF h] f r show ?thesis
    by auto
qed

section \<open>Properties of the extraction pipeline\<close>

lemma is_valid_attribute_Some:
  "is_valid_attribute s \<longleftrightarrow> (\<exists>u. s = Some u \<and> u \<noteq> [] \<and> is_valid_download_url u)"
  by (cases s) (simp_all add: is_valid_attribute_def)

lemma is_valid_nonempty: "is_valid_download_url u \<Longrightarrow> u \<noteq> []"
  by (auto simp: is_valid_download_url_def)

lemma check_popup_selectors_valid:
  "check_popup_selectors ss page = Some u \<Longrightarrow> is_valid_download_url u"
  by (induction ss) (auto simp: is_valid_attribute_Some split: sum.splits option.splits if_splits)

lemma try_selector_valid:
  assumes "try_selector page t selector = (Some u, page')"
  shows "is_valid_download_url u"
proof -
  have popup: "is_valid_download_url v" if "check_for_popup_link p = Some v" for p v
    using that check_popup_selectors_valid by (simp add: check_for_popup_link_def)
  show ?thesis
    using assms popup
    by (auto simp: try_selector_def is_valid_attribute_Some is_truthy_def Let_def
             split: sum.splits option.splits if_splits)
qed

lemma try_selectors_valid:
  "try_selectors ss page t = (Some u, page') \<Longrightarrow> is_valid_download_url u"
proof (induction ss arbitrary: page)
  case Nil
  then show ?case by simp
next
  case (Cons s ss)
  obtain r p where one: "try_selector page t s = (r, p)" by (cases "try_selector page t s")
  show ?case
  proof (cases r)
    case None
    with Cons.prems one have "try_selectors ss p t = (Some u, page')" by simp
    then show ?thesis by (rule Cons.IH)
  next
    case (Some v)
    with Cons.prems one have "v = u" "p = page'" by simp_all
    with one Some show ?thesis using try_selector_valid by blast
  qed
qed

lemma try_find_download_link_valid:
  "try_find_download_link page secs = (Some u, page') \<Longrightarrow> is_valid_download_url u"
  unfolding try_find_download_link_def by (rule try_selectors_valid)

lemma analyze_xhr_responses_valid:
  "analyze_xhr_responses xhr = Some u \<Longrightarrow> is_valid_download_url u"
  using analyze_values_Some by (simp add: analyze_xhr_responses_def)

lemma scan_source_elements_valid:
  "scan_source_elements es = Inr (Some u) \<Longrightarrow> is_valid_download_url u"
  by (induction es) (auto simp: is_valid_attribute_Some split: sum.splits if_splits)

lemma scan_video_elements_valid:
  "scan_video_elements es = Inr (Some u) \<Longrightarrow> is_valid_download_url u"
  by (induction es)
     (auto simp: is_valid_attribute_Some dest: scan_source_elements_valid
           split: sum.splits option.splits if_splits)

lemma extract_from_video_source_valid:
  "extract_from_video_source page = Inr (Some u) \<Longrightarrow> is_valid_download_url u"
  by (auto simp: extract_from_video_source_def dest: scan_video_elements_valid split: sum.splits)

lemma scan_iframe_elements_host:
  "scan_iframe_elements es = Inr (Some u) \<Longrightarrow> u \<noteq> [] \<and> is_iframe_video_source u"
  by (induction es) (auto split: sum.splits option.splits if_splits)

lemma extract_from_iframe_host:
  "extract_from_iframe page = Inr (Some u) \<Longrightarrow> u \<noteq> [] \<and> is_iframe_video_source u"
  by (auto simp: extract_from_iframe_def dest: scan_iframe_elements_host split: sum.splits)

lemma extract_static_first:
  assumes "try_find_download_link page secs = (Some url, page')"
  shows "extract_download_url page xhr secs = Inr (Some url)"
proof -
  have "url \<noteq> []"
    using try_find_download_link_valid [OF assms] by (rule is_valid_nonempty)
  then show ?thesis using assms by (simp add: extract_download_url_def is_truthy_def)
qed

lemma extract_xhr_second:
  assumes "try_find_download_link page secs = (None, page')"
    and "analyze_xhr_responses xhr = Some url"
  shows "extract_download_url page xhr secs = Inr (Some url)"
proof -
  have "url \<noteq> []"
    using analyze_xhr_responses_valid [OF assms(2)] by (rule is_valid_nonempty)
  then show ?thesis using assms by (simp add: extract_download_url_def is_truthy_def)
qed

lemma extract_video_third:
  assumes "try_find_download_link page secs = (None, page')"
    and "analyze_xhr_responses xhr = None"
    and "extract_from_video_source page' = Inr (Some url)"
  shows "extract_download_url page xhr secs = Inr (Some url)"
proof -
  have "url \<noteq> []"
    using extract_from_video_source_valid [OF assms(3)] by (rule is_valid_nonempty)
  then show ?thesis using assms by (simp add: extract_download_url_def is_truthy_def)
qed

lemma extract_iframe_last:
  assumes "try_find_download_link page secs = (None, page')"
    and "analyze_xhr_responses xhr = None"
    and "extract_from_video_source page' = Inr None"
  shows "extract_download_url page xhr secs = extract_from_iframe page'"
proof (cases "extract_from_iframe page'")
  case (Inl e)
  then show ?thesis using assms by (simp add: extract_download_url_def is_truthy_def)
next
  case (Inr r)
  show ?thesis
  proof (cases r)
    case None
    with Inr show ?thesis using assms by (simp add: extract_download_url_def is_truthy_def)
  next
    case (Some u)
    with Inr have "u \<noteq> []" using extract_from_iframe_host by blast
    with Inr Some show ?thesis using assms by (simp add: extract_download_url_def is_truthy_def)
  qed
qed

lemma extract_download_url_accepts:
  assumes "extract_download_url page xhr secs = Inr (Some url)"
  shows "is_valid_download_url url \<or> is_iframe_video_source url"
proof -
  obtain found page' where f: "try_find_download_link page secs = (found, page')"
    by (cases "try_find_download_link page secs")
  show ?thesis
  proof (cases found)
    case (Some u)
    with f assms extract_static_first [of page secs u page' xhr] have "u = url" by simp
    with f Some show ?thesis using try_find_download_link_valid by blast
  next
    case None
    note static = this
    show ?thesis
    proof (cases "analyze_xhr_responses xhr")
      case (Some u)
      with f static assms extract_xhr_second [of page secs page' xhr u] have "u = url" by simp
      with Some show ?thesis using analyze_xhr_responses_valid by blast
    next
      case None
      note xhr = this
      show ?thesis
      proof (cases "extract_from_video_source page'")
        case (Inl e)
        with f static xhr assms show ?thesis
          by (simp add: extract_download_url_def is_truthy_def)
      next
        case (Inr r)
        show ?thesis
        proof (cases r)
          case None
          with Inr f static xhr assms extract_iframe_last [of page secs page' xhr]
          have "extract_from_iframe page' = Inr (Some url)" by simp
          then show ?thesis using extract_from_iframe_host by blast
        next
          case (Some u)
          with Inr f static xhr assms extract_video_third [of page secs page' xhr u]
          have "u = url" by simp
          with Inr Some show ?thesis using extract_from_video_source_valid by blast
        qed
      qed
    qed
  qed
qed

text \<open>
  C5. The pipeline runs the static-selector scan, the captured-response analysis, the
  media-element scan and the embedded-frame scan in this order and returns the first
  result found: a result of the static-selector scan is returned whatever the captured
  responses are (so also when the captured-response analysis would produce a valid URL);
  without one, a result of the captured-response analysis is returned; without either,
  a result of the media-element scan; and otherwise the outcome is that of the
  embedded-frame scan. Every URL returned passes the validity predicate or, from the
  embedded-frame scan, the host allow-list.
\<close>

theorem C5_strategy_order:
  "(\<forall>url page'. try_find_download_link page secs = (Some url, page') \<longrightarrow>
       extract_download_url page xhr secs = Inr (Some url))
   \<and> (\<forall>url page'. try_find_download_link page secs = (None, page')
         \<and> analyze_xhr_responses xhr = Some url \<longrightarrow>
       extract_download_url page xhr secs = Inr (Some url))
   \<and> (\<forall>url page'. try_find_download_link page secs = (None, page')
         \<and> analyze_xhr_responses xhr = None
         \<and> extract_from_video_source page' = Inr (Some url) \<longrightarrow>
       extract_download_url page xhr secs = Inr (Some url))
   \<and> (\<forall>page'. try_find_download_link page secs = (None, page')
         \<and> analyze_xhr_responses xhr = None
         \<and> extract_from_video_source page' = Inr None \<longrightarrow>
       extract_download_url page xhr secs = extract_from_iframe page')
   \<and> (\<forall>url. extract_download_url page xhr secs = Inr (Some url) \<longrightarrow>
       is_valid_download_url url \<or> is_iframe_video_source url)"
  using extract_static_first [of page secs _ _ xhr]
    extract_xhr_second [of page secs _ xhr]
    extract_video_third [of page secs _ xhr]
    extract_iframe_last [of page secs _ xhr]
    extract_download_url_accepts [of page xhr secs]
  by blast

theorem C5_strategy_order_witness:
  "try_find_download_link example_page 15 =
     (Some ''https://cdn.example.com/video/abc.mp4'', example_page)
   \<and> analyze_xhr_responses [(''https://x/y.m3u8'', ''https://x/y.m3u8'')] = Some ''https://x/y.m3u8''
   \<and> extract_download_url example_page [(''https://x/y.m3u8'', ''https://x/y.m3u8'')] 15 =
       Inr (Some ''https://cdn.example.com/video/abc.mp4'')"
proof -
  have v: "is_valid_download_url ''https://cdn.example.com/video/abc.mp4''"
    by code_simp
  have static: "try_find_download_link example_page 15 =
     (Some ''https://cdn.example.com/video/abc.mp4'', example_page)"
    using v
    by (simp add: try_find_download_link_def selectors_def try_selector_def example_page_def
          example_link_def is_valid_attribute_def)
  have captured: "analyze_xhr_responses [(''https://x/y.m3u8'', ''https://x/y.m3u8'')]
      = Some ''https://x/y.m3u8''"
    by code_simp
  from C5_strategy_order [of example_page 15 "[(''https://x/y.m3u8'', ''https://x/y.m3u8'')]"] static
  have "extract_download_url example_page [(''https://x/y.m3u8'', ''https://x/y.m3u8'')] 15 =
       Inr (Some ''https://cdn.example.com/video/abc.mp4'')"
    by blast
  with static captured show ?thesis by blast
qed

section \<open>Properties of the browser client\<close>

lemma ensure_initialized_done:
  "browser self \<noteq> None \<Longrightarrow> browser_context self \<noteq> None \<Longrightarrow> ensure_initialized self pw = (self, pw)"
  by (auto simp: ensure_initialized_def)

lemma ensure_initialized_sets:
  "ensure_initialized self pw = (self', pw') \<Longrightarrow>
     browser self' \<noteq> None \<and> browser_context self' \<noteq> None
     \<and> timeout self' = timeout self \<and> xhr_responses self' = xhr_responses self"
  by (auto simp: ensure_initialized_def initialize_def split: if_splits)

lemma ensure_initialized_idem:
  "ensure_initialized self pw = (self', pw') \<Longrightarrow> ensure_initialized self' pw' = (self', pw')"
  using ensure_initialized_sets [of self pw self' pw'] by (simp add: ensure_initialized_done)

lemma navigate_and_extract_handles:
  "navigate_and_extract self env url = (attempt, self') \<Longrightarrow>
     browser self' = browser self \<and> browser_context self' = browser_context self"
  by (auto simp: navigate_and_extract_def Let_def split: option.splits sum.splits)

lemma fetch_and_extract_initialized:
  assumes "browser self \<noteq> None" and "browser_context self \<noteq> None"
    and "fetch_and_extract self pw env url = (outcome, self', pw')"
  shows "pw' = pw \<and> browser self' = browser self \<and> browser_context self' = browser_context self"
proof (cases "wait_for_request (rate_limiter self) (entered env) (clock_lag env)")
  case (Inl e)
  with assms(3) show ?thesis by (auto simp: fetch_and_extract_def)
next
  case (Inr limiter)
  have e: "ensure_initialized (self\<lparr>rate_limiter := limiter\<rparr>) pw = (self\<lparr>rate_limiter := limiter\<rparr>, pw)"
    using assms(1,2) by (simp add: ensure_initialized_done)
  obtain attempt self3 where n:
    "navigate_and_extract (self\<lparr>rate_limiter := limiter, xhr_responses := []\<rparr>) env url = (attempt, self3)"
    by (cases "navigate_and_extract (self\<lparr>rate_limiter := limiter, xhr_responses := []\<rparr>) env url")
  from navigate_and_extract_handles [OF n]
  have h: "browser self3 = browser self" "browser_context self3 = browser_context self"
    by simp_all
  from assms(3) show ?thesis
    using Inr e n h
    by (auto simp: fetch_and_extract_def Let_def split: option.splits)
qed

text \<open>
  C8, as stated, on a fresh client: the first call of \<open>initialize\<close> launches browser 0
  and creates context 0, the second call launches browser 1 and creates context 1 and
  replaces both handles.
\<close>

theorem C8_initialize_counterexample:
  "initialize (BrowserClient 5 10 15) \<lparr>browsers = 0, contexts = 0\<rparr> =
     (\<lparr>rate_limiter = RateLimiter 5 10, timeout = 15, browser = Some 0,
       browser_context = Some 0, xhr_responses = []\<rparr>,
      \<lparr>browsers = 1, contexts = 1\<rparr>)
   \<and> initialize
        \<lparr>rate_limiter = RateLimiter 5 10, timeout = 15, browser = Some 0,
          browser_context = Some 0, xhr_responses = []\<rparr>
        \<lparr>browsers = 1, contexts = 1\<rparr> =
     (\<lparr>rate_limiter = RateLimiter 5 10, timeout = 15, browser = Some 1,
       browser_context = Some 1, xhr_responses = []\<rparr>,
      \<lparr>browsers = 2, contexts = 2\<rparr>)"
  by (simp add: initialize_def BrowserClient_def)

text \<open>
  C8, amended. The lazy initialization of \<open>fetch_and_extract\<close> is idempotent: running it
  again after it has run changes nothing; on a session whose browser and context are set
  (as they are after \<open>initialize\<close>) it does nothing, and a whole fetch on such a session
  leaves the browser and the context as they are and launches and creates nothing.
\<close>

theorem C8_lazy_initialization_idempotent:
  "(\<forall>self' pw'. ensure_initialized self pw = (self', pw') \<longrightarrow>
       ensure_initialized self' pw' = (self', pw'))
   \<and> (\<forall>self' pw'. initialize self pw = (self', pw') \<longrightarrow>
       ensure_initialized self' pw' = (self', pw'))
   \<and> (browser self \<noteq> None \<and> browser_context self \<noteq> None \<longrightarrow>
       ensure_initialized self pw = (self, pw)
       \<and> (\<forall>outcome self' pw'. fetch_and_extract self pw env url = (outcome, self', pw') \<longrightarrow>
             pw' = pw \<and> browser self' = browser self
             \<and> browser_context self' = browser_context self))"
proof -
  have a: "ensure_initialized self' pw' = (self', pw')"
    if "initialize self pw = (self', pw')" for self' pw'
    using that by (auto simp: initialize_def ensure_initialized_def)
  show ?thesis
    using ensure_initialized_idem [of self pw] a ensure_initialized_done [of self pw]
      fetch_and_extract_initialized [of self pw env url]
    by blast
qed

theorem C8_lazy_initialization_idempotent_witness:
  "ensure_initialized
      \<lparr>rate_limiter = RateLimiter 5 10, timeout = 15, browser = Some 0,
        browser_context = Some 0, xhr_responses = []\<rparr>
      \<lparr>browsers = 1, contexts = 1\<rparr> =
     (\<lparr>rate_limiter = RateLimiter 5 10, timeout = 15, browser = Some 0,
       browser_context = Some 0, xhr_responses = []\<rparr>,
      \<lparr>browsers = 1, contexts = 1\<rparr>)"
proof -
  have i: "initialize (BrowserClient 5 10 15) \<lparr>browsers = 0, contexts = 0\<rparr> =
     (\<lparr>rate_limiter = RateLimiter 5 10, timeout = 15, browser = Some 0,
       browser_context = Some 0, xhr_responses = []\<rparr>,
      \<lparr>browsers = 1, contexts = 1\<rparr>)"
    by (simp add: initialize_def BrowserClient_def)
  from C8_lazy_initialization_idempotent
         [of "BrowserClient 5 10 15" "\<lparr>browsers = 0, contexts = 0\<rparr>"] i
  show ?thesis by blast
qed

lemma fetch_and_extract_outcome:
  assumes "wait_for_request (rate_limiter self) (entered env) (clock_lag env) = Inr limiter"
    and "new_page env = None"
  shows "fst (fetch_and_extract self pw env url) =
     (case page_close env of
        Some e \<Rightarrow> Inl e
      | None \<Rightarrow>
          (case page_on env of
             Some e \<Rightarrow> Inr None
           | None \<Rightarrow>
               (case goto env url of
                  Inl e \<Rightarrow> Inr None
                | Inr page \<Rightarrow>
                    (case extract_download_url page (handle_responses (responses env) []) (timeout self) of
                       Inl e \<Rightarrow> Inr None
                     | Inr r \<Rightarrow> Inr r))))"
proof -
  obtain self1 pw' where e: "ensure_initialized (self\<lparr>rate_limiter := limiter\<rparr>) pw = (self1, pw')"
    by (cases "ensure_initialized (self\<lparr>rate_limiter := limiter\<rparr>) pw")
  from ensure_initialized_sets [OF e] have t: "timeout self1 = timeout self"
    by simp
  show ?thesis
    using assms e t
    by (simp add: fetch_and_extract_def navigate_and_extract_def Let_def
             split: option.splits sum.splits)
qed

text \<open>
  C4, as stated, at a fetch whose \<open>context.new_page()\<close> raises: the page is opened
  before the \<open>try\<close> block, and the exception propagates to the caller.
\<close>

theorem C4_page_open_counterexample:
  "fst (fetch_and_extract (BrowserClient 5 10 15) \<lparr>browsers = 0, contexts = 0\<rparr>
         \<lparr>entered = 0, clock_lag = 0, new_page = Some PlaywrightError, page_on = None,
          responses = [], goto = (\<lambda>url. Inr example_page), page_close = None\<rparr>
         ''https://example.com/watch/1'')
   = Inl PlaywrightError"
  by (simp add: fetch_and_extract_def BrowserClient_def RateLimiter_def wait_for_request_def
        py_max_def ensure_initialized_def initialize_def)

text \<open>
  C4, amended. For every input URL, once the rate limiter has let the fetch pass and the
  page has been opened: when closing the page succeeds, \<open>fetch_and_extract\<close> returns a
  value and raises nothing, and any failure in the listener registration, the
  navigation or the extraction is turned into the result \<open>None\<close>; an exception of
  \<open>page.close()\<close> is the only one that reaches the caller.
\<close>

theorem C4_failures_become_none:
  assumes "wait_for_request (rate_limiter self) (entered env) (clock_lag env) = Inr limiter"
    and "new_page env = None"
  shows "(page_close env = None \<longrightarrow>
            (\<exists>r. fst (fetch_and_extract self pw env url) = Inr r))
     \<and> (page_close env = None
          \<and> (page_on env \<noteq> None
              \<or> (\<exists>e. goto env url = Inl e)
              \<or> (\<exists>page e. goto env url = Inr page
                    \<and> extract_download_url page (handle_responses (responses env) []) (timeout self)
                        = Inl e)) \<longrightarrow>
            fst (fetch_and_extract self pw env url) = Inr None)
     \<and> (\<forall>e. fst (fetch_and_extract self pw env url) = Inl e \<longrightarrow> page_close env = Some e)"
  unfolding fetch_and_extract_outcome [OF assms]
  by (auto split: option.splits sum.splits)

theorem C4_failures_become_none_witness:
  "fst (fetch_and_extract (BrowserClient 5 10 15) \<lparr>browsers = 0, contexts = 0\<rparr>
         \<lparr>entered = 0, clock_lag = 0, new_page = None, page_on = None,
          responses = [], goto = (\<lambda>url. Inl PlaywrightError), page_close = None\<rparr>
         ''https://example.com/watch/1'')
   = Inr None"
proof -
  let ?env = "\<lparr>entered = 0, clock_lag = 0, new_page = None, page_on = None,
          responses = [], goto = (\<lambda>url. Inl PlaywrightError), page_close = None\<rparr>"
  have h1: "wait_for_request (rate_limiter (BrowserClient 5 10 15)) (entered ?env) (clock_lag ?env)
      = Inr \<lparr>delay_between_requests = 5, max_requests_per_minute = 10, request_times = [0]\<rparr>"
    by (simp add: BrowserClient_def RateLimiter_def wait_for_request_def py_max_def)
  have h2: "new_page ?env = None" by simp
  have h3: "page_close ?env = None" by simp
  have h4: "\<exists>e. goto ?env ''https://example.com/watch/1'' = Inl e" by simp
  from C4_failures_become_none [OF h1 h2, of "\<lparr>browsers = 0, contexts = 0\<rparr>" "''https://example.com/watch/1''"]
    h3 h4
  show ?thesis by blast
qed

text \<open>
  One fetch running alone does not see what the dict held before: its outcome is the
  same whatever the content of \<open>xhr_responses\<close> at the call.
\<close>

lemma fetch_and_extract_alone_isolated:
  "fst (fetch_and_extract (self\<lparr>xhr_responses := d\<rparr>) pw env url)
     = fst (fetch_and_extract self pw env url)"
proof (cases "wait_for_request (rate_limiter self) (entered env) (clock_lag env)")
  case (Inl e)
  then show ?thesis by (simp add: fetch_and_extract_def)
next
  case (Inr limiter)
  show ?thesis
  proof (cases "new_page env")
    case None
    have t: "timeout (self\<lparr>xhr_responses := d\<rparr>) = timeout self"
      by simp
    have "fst (fetch_and_extract (self\<lparr>xhr_responses := d\<rparr>) pw env url)
        = (case page_close env of
             Some e \<Rightarrow> Inl e
           | None \<Rightarrow>
               (case page_on env of
                  Some e \<Rightarrow> Inr None
                | None \<Rightarrow>
                    (case goto env url of
                       Inl e \<Rightarrow> Inr None
                     | Inr page \<Rightarrow>
                         (case extract_download_url page (handle_responses (responses env) []) (timeout self) of
                            Inl e \<Rightarrow> Inr None
                          | Inr r \<Rightarrow> Inr r))))"
      using fetch_and_extract_outcome [of "self\<lparr>xhr_responses := d\<rparr>" env limiter pw url]
        Inr None
      unfolding t by simp
    also have "\<dots> = fst (fetch_and_extract self pw env url)"
      using fetch_and_extract_outcome [of self env limiter pw url] Inr None by simp
    finally show ?thesis .
  next
    case (Some e)
    obtain s1 p1 where a: "ensure_initialized (self\<lparr>rate_limiter := limiter\<rparr>) pw = (s1, p1)"
      by (cases "ensure_initialized (self\<lparr>rate_limiter := limiter\<rparr>) pw")
    obtain s2 p2 where b:
      "ensure_initialized (self\<lparr>xhr_responses := d, rate_limiter := limiter\<rparr>) pw = (s2, p2)"
      by (cases "ensure_initialized (self\<lparr>xhr_responses := d, rate_limiter := limiter\<rparr>) pw")
    show ?thesis using Inr Some a b by (simp add: fetch_and_extract_def Let_def)
  qed
qed

text \<open>
  C1, at a failing schedule of two concurrent fetches on one client: fetch 1 clears the
  dict and captures a response of its page; fetch 2 then starts, clears the same dict
  and captures a response of its own page; after that the pipeline of fetch 1 reads the
  dict. It finds the URL captured for fetch 2 and not its own, and the
  captured-response analysis of fetch 1 returns the URL of fetch 2.
\<close>

theorem C1_shared_dict_leak:
  "run_fetches
     [Clear 1, Response 1 ''xhr'' ''https://a.example/video/a.mp4'',
      Clear 2, Response 2 ''xhr'' ''https://b.example/video/b.mp4'',
      Analyze 1, Analyze 2] []
   = [(1, [(''https://b.example/video/b.mp4'', ''https://b.example/video/b.mp4'')]),
      (2, [(''https://b.example/video/b.mp4'', ''https://b.example/video/b.mp4'')])]
   \<and> analyze_xhr_responses [(''https://b.example/video/b.mp4'', ''https://b.example/video/b.mp4'')]
       = Some ''https://b.example/video/b.mp4''"
proof -
  have a: "handle_response ''xhr'' ''https://b.example/video/b.mp4'' []
      = [(''https://b.example/video/b.mp4'', ''https://b.example/video/b.mp4'')]"
    by code_simp
  have b: "analyze_xhr_responses [(''https://b.example/video/b.mp4'', ''https://b.example/video/b.mp4'')]
       = Some ''https://b.example/video/b.mp4''"
    by code_simp
  show ?thesis using a b by simp
qed

end
